theory Spec2Isabelle
  imports Main "HOL-Library.Sublist"
begin

section \<open>Text primitives of the host language\<close>

text \<open>
  The program is Python 3 (it imports \<open>DEVNULL\<close> from \<open>subprocess\<close>). A Python
  \<open>str\<close> is modelled as a \<open>string\<close>; a \<open>char\<close> stands for a code point below 256.
  The functions of this section are the library functions the program calls on strings
  (\<open>str.strip\<close>, \<open>str.find\<close>, slicing, \<open>str.split\<close>, \<open>os.path.join\<close>,
  \<open>os.path.normpath\<close>, \<open>shlex.split\<close>, \<open>re.search\<close>); they are part of the
  interpreter's library, not of the repository, and are written here as the library
  computes them.
\<close>

text \<open>\<open>str.isspace\<close> on one character, which is also what \<open>\s\<close> matches in a
  \<open>str\<close> pattern: code points 9 to 13, 28 to 32, 133 and 160.\<close>

definition is_space :: "char \<Rightarrow> bool" where
  "is_space c =
     (let n = (of_char c :: nat)
      in (9 \<le> n \<and> n \<le> 13) \<or> (28 \<le> n \<and> n \<le> 32) \<or> n = 133 \<or> n = 160)"

text \<open>\<open>s.strip()\<close>.\<close>

definition strip :: "string \<Rightarrow> string" where
  "strip s = rev (dropWhile is_space (rev (dropWhile is_space s)))"

text \<open>\<open>s.find(c, start)\<close> for a one-character needle and \<open>0 \<le> start\<close>: the least
  index at or after \<open>start\<close> that holds \<open>c\<close>, or \<open>-1\<close>.\<close>

fun find_from :: "char \<Rightarrow> string \<Rightarrow> nat \<Rightarrow> int" where
  "find_from c [] i = -1"
| "find_from c (x # xs) i = (if x = c then int i else find_from c xs (Suc i))"

definition str_find :: "string \<Rightarrow> char \<Rightarrow> nat \<Rightarrow> int" where
  "str_find s c start = find_from c (drop start s) start"

text \<open>\<open>s[a:b]\<close> for \<open>0 \<le> a\<close>; a negative \<open>b\<close> counts from the end of \<open>s\<close>.\<close>

definition slice :: "string \<Rightarrow> nat \<Rightarrow> int \<Rightarrow> string" where
  "slice s a b =
     (let n = int (length s);
          hi = (if b < 0 then max (n + b) 0 else min b n)
      in take (nat hi - a) (drop a s))"

text \<open>\<open>s.split(sep)\<close> for a non-empty separator: the pieces between the
  occurrences of \<open>sep\<close>, found from left to right without overlap. The accumulator
  holds the current piece reversed.\<close>

fun split_acc :: "string \<Rightarrow> string \<Rightarrow> string \<Rightarrow> string list" where
  "split_acc sep acc [] = [rev acc]"
| "split_acc sep acc (c # cs) =
     (if sep \<noteq> [] \<and> take (length sep) (c # cs) = sep
      then rev acc # split_acc sep [] (drop (length sep - 1) cs)
      else split_acc sep (c # acc) cs)"

definition str_split :: "string \<Rightarrow> string \<Rightarrow> string list" where
  "str_split sep s = split_acc sep [] s"

text \<open>\<open>os.path.join(a, b)\<close> on POSIX.\<close>

definition path_join :: "string \<Rightarrow> string \<Rightarrow> string" where
  "path_join a b =
     (if b \<noteq> [] \<and> hd b = CHR ''/'' then b
      else if a = [] \<or> last a = CHR ''/'' then a @ b
      else a @ ''/'' @ b)"

subsection \<open>Path normalisation\<close>

text \<open>\<open>sep.join(comps)\<close>.\<close>

fun sep_join :: "string \<Rightarrow> string list \<Rightarrow> string" where
  "sep_join sep [] = []"
| "sep_join sep [x] = x"
| "sep_join sep (x # y # ys) = x @ sep @ sep_join sep (y # ys)"

text \<open>One round of the loop of \<open>posixpath.normpath\<close> over the components:
  \<open>new_comps\<close> is kept in order, \<open>initial_slashes\<close> is 0, 1 or 2.\<close>

definition norm_step :: "nat \<Rightarrow> string list \<Rightarrow> string \<Rightarrow> string list" where
  "norm_step initial_slashes new_comps part =
     (if part = [] \<or> part = ''.'' then new_comps
      else if part \<noteq> ''..'' \<or> (initial_slashes = 0 \<and> new_comps = [])
              \<or> (new_comps \<noteq> [] \<and> last new_comps = ''..'')
        then new_comps @ [part]
      else if new_comps \<noteq> [] then butlast new_comps
      else new_comps)"

definition normpath :: "string \<Rightarrow> string" where
  "normpath path =
     (if path = [] then ''.''
      else
        let initial_slashes =
              (if take 1 path = ''/''
               then (if take 2 path = ''//'' \<and> take 3 path \<noteq> ''///'' then 2 else 1)
               else (0::nat));
            comps = foldl (norm_step initial_slashes) [] (str_split ''/'' path);
            p = replicate initial_slashes CHR ''/'' @ sep_join ''/'' comps
        in if p = [] then ''.'' else p)"

subsection \<open>Exceptions\<close>

text \<open>The exceptions the program can meet. \<open>FileNotFoundError\<close> and
  \<open>PermissionError\<close> are \<open>OSError\<close> with the \<open>errno\<close> 2 and 13;
  \<open>UnboundLocalError\<close> is a \<open>NameError\<close>.\<close>

datatype exn =
  OSError nat  \<comment> \<open>with its \<open>errno\<close>\<close>
| ValueError
| UnicodeDecodeError
| NameError
| AssertionError

subsection \<open>Splitting a command line\<close>

text \<open>
  \<open>shlex.split(s)\<close>: the tokenizer of \<open>shlex\<close> in POSIX mode with
  \<open>whitespace_split\<close> set and no comment characters. Its states are \<open>' '\<close>
  (between tokens), \<open>'a'\<close> (in a word), a quote character (in a quoted part) and the
  escape character; \<open>escapedstate\<close> is the state an escape returns to. The tokenizer
  raises \<open>ValueError\<close> at the end of the input inside a quoted part ("No closing
  quotation") or after an escape character ("No escaped character").
\<close>

datatype lex_state = Between | Word | Quoted char | Escape

definition shlex_whitespace :: "char \<Rightarrow> bool" where
  "shlex_whitespace c = (c = CHR '' '' \<or> c = CHR 0x09 \<or> c = CHR 0x0D \<or> c = CHR 0x0A)"

definition shlex_quote :: "char \<Rightarrow> bool" where
  "shlex_quote c = (c = CHR 0x27 \<or> c = CHR 0x22)"

text \<open>The arguments are the state, \<open>escapedstate\<close>, \<open>quoted\<close>, the current token
  (reversed), the tokens already emitted (latest first) and the unread input.\<close>

fun read_tokens ::
  "lex_state \<Rightarrow> lex_state \<Rightarrow> bool \<Rightarrow> string \<Rightarrow> string list \<Rightarrow> string \<Rightarrow> exn + string list"
where
  "read_tokens Between es quoted tok out [] =
     Inr (rev (if tok \<noteq> [] \<or> quoted then rev tok # out else out))"
| "read_tokens Word es quoted tok out [] =
     Inr (rev (if tok \<noteq> [] \<or> quoted then rev tok # out else out))"
| "read_tokens (Quoted q) es quoted tok out [] = Inl ValueError"
| "read_tokens Escape es quoted tok out [] = Inl ValueError"
| "read_tokens Between es quoted tok out (c # cs) =
     (if shlex_whitespace c then
        (if tok \<noteq> [] \<or> quoted then read_tokens Between Between False [] (rev tok # out) cs
         else read_tokens Between es quoted tok out cs)
      else if c = CHR 0x5C then read_tokens Escape Word quoted tok out cs
      else if shlex_quote c then read_tokens (Quoted c) es quoted tok out cs
      else read_tokens Word es quoted [c] out cs)"
| "read_tokens (Quoted q) es quoted tok out (c # cs) =
     (if c = q then read_tokens Word es True tok out cs
      else if c = CHR 0x5C \<and> q = CHR 0x22 then read_tokens Escape (Quoted q) True tok out cs
      else read_tokens (Quoted q) es True (c # tok) out cs)"
| "read_tokens Escape es quoted tok out (c # cs) =
     (let tok' = (case es of
                    Quoted q \<Rightarrow> if c \<noteq> CHR 0x5C \<and> c \<noteq> q then CHR 0x5C # tok else tok
                  | _ \<Rightarrow> tok)
      in read_tokens es es quoted (c # tok') out cs)"
| "read_tokens Word es quoted tok out (c # cs) =
     (if shlex_whitespace c then
        (if tok \<noteq> [] \<or> quoted then read_tokens Between Between False [] (rev tok # out) cs
         else read_tokens Between es quoted tok out cs)
      else if shlex_quote c then read_tokens (Quoted c) es quoted tok out cs
      else if c = CHR 0x5C then read_tokens Escape Word quoted tok out cs
      else read_tokens Word es quoted (c # tok) out cs)"

definition shsplit :: "string \<Rightarrow> exn + string list" where
  "shsplit s = read_tokens Between Between False [] [] s"

subsection \<open>Regular expressions\<close>

text \<open>
  The three patterns of the program are sequences of literals and of character classes
  under \<open>+\<close> or \<open>*\<close>: \<open>\s\<close>, \<open>[^\s]\<close> and \<open>[^\(\)\s]\<close>. \<open>re.escape\<close>
  turns the library name into a pattern that matches the name literally, so the escaped
  name is a literal of the sequence.
\<close>

datatype cclass = Space | NonSpace | NonParenSpace

datatype atom = Lit string | One cclass | Star cclass | Plus cclass

fun in_class :: "cclass \<Rightarrow> char \<Rightarrow> bool" where
  "in_class Space c = is_space c"
| "in_class NonSpace c = (\<not> is_space c)"
| "in_class NonParenSpace c = (c \<noteq> CHR ''('' \<and> c \<noteq> CHR '')'' \<and> \<not> is_space c)"

text \<open>The lengths an atom can consume at the head of \<open>s\<close>, in the order the
  backtracking matcher tries them: a greedy repetition tries the longest run first.\<close>

fun atom_alts :: "atom \<Rightarrow> string \<Rightarrow> nat list" where
  "atom_alts (Lit l) s = (if take (length l) s = l then [length l] else [])"
| "atom_alts (One k) s = (case s of [] \<Rightarrow> [] | c # _ \<Rightarrow> if in_class k c then [1] else [])"
| "atom_alts (Star k) s = rev [0 ..< Suc (length (takeWhile (in_class k) s))]"
| "atom_alts (Plus k) s = rev [1 ..< Suc (length (takeWhile (in_class k) s))]"

primrec first_some :: "('a \<Rightarrow> 'b option) \<Rightarrow> 'a list \<Rightarrow> 'b option" where
  "first_some f [] = None"
| "first_some f (x # xs) = (case f x of Some y \<Rightarrow> Some y | None \<Rightarrow> first_some f xs)"

text \<open>The first match of a sequence of atoms at the head of \<open>s\<close>, as the length each
  atom consumed.\<close>

primrec match_here :: "atom list \<Rightarrow> string \<Rightarrow> nat list option" where
  "match_here [] = (\<lambda>s. Some [])"
| "match_here (a # as) =
     (\<lambda>s. first_some (\<lambda>n. map_option ((#) n) (match_here as (drop n s))) (atom_alts a s))"

text \<open>\<open>re.search\<close>: the match at the leftmost position that has one. A match is its
  start and the lengths its atoms consumed.\<close>

type_synonym rmatch = "nat \<times> nat list"

fun search_from :: "atom list \<Rightarrow> string \<Rightarrow> nat \<Rightarrow> rmatch option" where
  "search_from p [] i = map_option (Pair i) (match_here p [])"
| "search_from p (c # cs) i =
     (case match_here p (c # cs) of
        Some ls \<Rightarrow> Some (i, ls)
      | None \<Rightarrow> search_from p cs (Suc i))"

definition search :: "atom list \<Rightarrow> string \<Rightarrow> rmatch option" where
  "search p s = search_from p s 0"

definition match_start :: "rmatch \<Rightarrow> nat" where
  "match_start m = fst m"

definition match_end :: "rmatch \<Rightarrow> nat" where
  "match_end m = fst m + sum_list (snd m)"

text \<open>The text the atoms \<open>i, \<dots>, j - 1\<close> of the pattern matched.\<close>

definition match_span :: "rmatch \<Rightarrow> nat \<Rightarrow> nat \<Rightarrow> string \<Rightarrow> string" where
  "match_span m i j s =
     take (sum_list (take (j - i) (drop i (snd m)))) (drop (fst m + sum_list (take i (snd m))) s)"

section \<open>The host: tools, files and effects\<close>

text \<open>
  What the operating system and the external tools answer is a parameter of the model:
  a record of functions, one for each query the program makes. \<open>os.path.realpath\<close>
  is modelled where it returns: it raises only when it is given a relative path after the
  working directory was removed, as it asks \<open>os.getcwd\<close> for the directory then.
\<close>

text \<open>\<open>Popen(argv, ...)\<close> followed by \<open>communicate()\<close>: spawning raises an
  \<open>OSError\<close> (the tool is missing, may not be executed, the system is out of
  processes, \<dots>) or a \<open>ValueError\<close> (an argument holds a null character), or the
  process runs and its output is captured.\<close>

datatype popen_result =
  Raises_OSError nat  \<comment> \<open>with its \<open>errno\<close>\<close>
| Raises_ValueError
| Stdout string  \<comment> \<open>the captured output, valid UTF-8, decoded\<close>
| Stdout_invalid_utf8  \<comment> \<open>captured output that \<open>decode('utf-8')\<close> refuses\<close>

record host =
  find_executable :: "string \<Rightarrow> string option"
  popen :: "string list \<Rightarrow> popen_result"
  uname_machine :: string
  calcsize_l :: nat
  realpath :: "string \<Rightarrow> string"
  getcwd :: "nat + string"  \<comment> \<open>\<open>Inl errno\<close> when \<open>os.getcwd\<close> raises\<close>
  glob :: "string \<Rightarrow> string list"
  isfile :: "string \<Rightarrow> bool"
  mktemp :: "nat + string"
    \<comment> \<open>\<open>NamedTemporaryFile()\<close>: \<open>Inl errno\<close> when it raises, or the file's name\<close>
  tmp_exit :: "string \<Rightarrow> nat option"
    \<comment> \<open>the \<open>errno\<close> of the \<open>OSError\<close> that removing the temporary file raises
      when the \<open>with\<close> block is left, if any\<close>

text \<open>The effects of a call are recorded in the state that is passed along: the
  list of interactions with the system so far, the temporary files whose handle is open, and
  the paths of the temporary files that the program made and that are still on disk.\<close>

datatype event =
  Which string  \<comment> \<open>\<open>find_executable(name)\<close>\<close>
| Spawn "string list"  \<comment> \<open>\<open>Popen(argv, ...)\<close>\<close>
| TmpOpen string
| TmpClose string
| Getcwd
| Glob string

record world =
  events :: "event list"
  open_tmp :: "string list"
  tmp_paths :: "string list"

definition emit :: "event \<Rightarrow> world \<Rightarrow> world" where
  "emit e w = w\<lparr>events := events w @ [e]\<rparr>"

definition ENOENT :: nat where
  "ENOENT = 2"

text \<open>\<open>NamedTemporaryFile()\<close> makes the file \<open>name\<close> and opens it.\<close>

definition tmp_enter :: "string \<Rightarrow> world \<Rightarrow> world" where
  "tmp_enter name w =
     (emit (TmpOpen name) w)\<lparr>open_tmp := name # open_tmp w, tmp_paths := name # tmp_paths w\<rparr>"

text \<open>Leaving the \<open>with\<close> block closes the handle and then removes the path with
  \<open>os.unlink\<close>; \<open>failure\<close> is the \<open>errno\<close> of the \<open>OSError\<close> that the
  removal raises, if any. With \<open>ENOENT\<close> the path was gone already; with any other
  \<open>errno\<close> the path stays on disk.\<close>

definition tmp_leave :: "nat option \<Rightarrow> string \<Rightarrow> world \<Rightarrow> world" where
  "tmp_leave failure name w =
     (emit (TmpClose name) w)
       \<lparr>open_tmp := remove1 name (open_tmp w),
        tmp_paths := (case failure of
                        None \<Rightarrow> remove1 name (tmp_paths w)
                      | Some n \<Rightarrow> if n = ENOENT then remove1 name (tmp_paths w)
                                  else tmp_paths w)\<rparr>"

text \<open>Python's truth value of an optional string: \<open>None\<close> and \<open>''\<close> are false.\<close>

fun truthy :: "string option \<Rightarrow> bool" where
  "truthy None = False"
| "truthy (Some s) = (s \<noteq> [])"

section \<open>The program\<close>

text \<open>The functions of \<open>posix.py\<close>, under their names without the leading
  underscore. A function that has effects takes the \<open>world\<close> and returns it; a raised
  exception is \<open>Inl\<close>; Python's \<open>None\<close> is \<open>None\<close>.\<close>

definition abi_map :: "((string \<times> string) \<times> string) list" where
  "abi_map =
     [((''x86_64'', ''64''), ''libc6,x86-64''),
      ((''ppc64'', ''64''), ''libc6,64bit''),
      ((''sparc64'', ''64''), ''libc6,64bit''),
      ((''s390x'', ''64''), ''libc6,64bit''),
      ((''ia64'', ''64''), ''libc6,IA-64'')]"

definition abi_lookup :: "string \<Rightarrow> string \<Rightarrow> string" where
  "abi_lookup machine arch =
     (case map_of abi_map (machine, arch) of Some t \<Rightarrow> t | None \<Rightarrow> ''libc6'')"

definition abi_type :: "host \<Rightarrow> string" where
  "abi_type h =
     (let machine = uname_machine h;
          arch = (if calcsize_l h = 4 then ''32'' else ''64'')
      in abi_lookup machine arch)"

definition execute :: "host \<Rightarrow> string \<Rightarrow> world \<Rightarrow> (exn + string option) \<times> world" where
  "execute h command w =
     (case shsplit command of
        Inl e \<Rightarrow> (Inl e, w)
      | Inr argv \<Rightarrow>
          (let w1 = emit (Spawn argv) w
           in case popen h argv of
                Raises_OSError n \<Rightarrow> (Inr None, w1)
              | Raises_ValueError \<Rightarrow> (Inl ValueError, w1)
              | Stdout out \<Rightarrow> (Inr (Some out), w1)
              | Stdout_invalid_utf8 \<Rightarrow> (Inl UnicodeDecodeError, w1)))"

definition final_path :: "host \<Rightarrow> string \<Rightarrow> string" where
  "final_path h library_path = realpath h (normpath library_path)"

text \<open>\<open>r'\s+(lib{library}\.[^\s]+)\s+\({abi_type}'\<close>. The ABI tag is put into the
  pattern as it is; the tags of \<open>abi_map\<close> hold no character that is special in a
  pattern, so the tag is a literal.\<close>

definition ldconfig_expr :: "string \<Rightarrow> string \<Rightarrow> atom list" where
  "ldconfig_expr library abi =
     [Plus Space, Lit (''lib'' @ library @ ''.''), Plus NonSpace, Plus Space, Lit (''('' @ abi)]"

definition ldconfig_search :: "host \<Rightarrow> string \<Rightarrow> world \<Rightarrow> (exn + string option) \<times> world" where
  "ldconfig_search h library w =
     (let w1 = emit (Which ''ldconfig'') w
      in case find_executable h ''ldconfig'' of
           None \<Rightarrow> (Inr None, w1)
         | Some executable \<Rightarrow>
             (case execute h (executable @ '' -p'') w1 of
                (Inl e, w2) \<Rightarrow> (Inl e, w2)
              | (Inr None, w2) \<Rightarrow> (Inr None, w2)
              | (Inr (Some ldconfig), w2) \<Rightarrow>
                  (case search (ldconfig_expr library (abi_type h)) ldconfig of
                     None \<Rightarrow> (Inr None, w2)
                   | Some m \<Rightarrow>
                       (let end_of_line = str_find ldconfig CHR 0x0A (match_end m);
                            line = strip (slice ldconfig (match_start m) end_of_line);
                            library_path = strip (last (str_split ''=>'' line))
                        in (Inr (Some (final_path h library_path)), w2)))))"

text \<open>A local variable of a function body is unbound until it is assigned; reading it
  unbound raises \<open>UnboundLocalError\<close>, a \<open>NameError\<close>.\<close>

datatype 'a binding = Unbound | Bound 'a

text \<open>\<open>r'[^\(\)\s]*lib{}\.[^\(\)\s]*'\<close>.\<close>

definition gcc_expr :: "string \<Rightarrow> atom list" where
  "gcc_expr library = [Star NonParenSpace, Lit (''lib'' @ library @ ''.''), Star NonParenSpace]"

definition gcc_command :: "string \<Rightarrow> string \<Rightarrow> string \<Rightarrow> string" where
  "gcc_command linker program library =
     linker @ '' -Wl,-t -o '' @ [CHR 0x22] @ program @ [CHR 0x22]
       @ '' -l'' @ [CHR 0x22] @ library @ [CHR 0x22]"

text \<open>The handler \<open>except OSError as e: if e.errno != ENOENT: raise\<close> applied to an
  exception that left the \<open>with\<close> block: \<open>None\<close> when the handler swallows it.\<close>

fun gcc_handler :: "exn \<Rightarrow> exn option" where
  "gcc_handler (OSError n) = (if n \<noteq> ENOENT then Some (OSError n) else None)"
| "gcc_handler e = Some e"

text \<open>
  The \<open>try\<close> statement of \<open>_gcc_search\<close>: the \<open>with\<close> block and its handler. The
  result is the exception that leaves the statement, or what \<open>trace\<close> is bound to after
  it. Leaving the \<open>with\<close> block closes and removes the temporary file whether the
  body raised or not; an exception raised by the removal replaces the one of the body.
\<close>

definition gcc_trace ::
  "host \<Rightarrow> string \<Rightarrow> string \<Rightarrow> world \<Rightarrow> (exn + string option binding) \<times> world"
where
  "gcc_trace h linker library w =
     (case mktemp h of
        Inl n \<Rightarrow>
          (case gcc_handler (OSError n) of
             Some e \<Rightarrow> (Inl e, w)
           | None \<Rightarrow> (Inr Unbound, w))
      | Inr name \<Rightarrow>
          (let w1 = tmp_enter name w;
               command = gcc_command linker name library;
               (r, w2) = execute h command w1;
               w3 = tmp_leave (tmp_exit h name) name w2;
               raised = (case tmp_exit h name of
                           Some n \<Rightarrow> Some (OSError n)
                         | None \<Rightarrow> (case r of Inl e \<Rightarrow> Some e | Inr _ \<Rightarrow> None));
               trace = (case r of Inl _ \<Rightarrow> Unbound | Inr t \<Rightarrow> Bound t)
           in case raised of
                None \<Rightarrow> (Inr trace, w3)
              | Some e \<Rightarrow>
                  (case gcc_handler e of
                     Some e' \<Rightarrow> (Inl e', w3)
                   | None \<Rightarrow> (Inr trace, w3))))"

definition gcc_search :: "host \<Rightarrow> string \<Rightarrow> world \<Rightarrow> (exn + string option) \<times> world" where
  "gcc_search h library w =
     (let w1 = emit (Which ''cc'') w;
          cc = find_executable h ''cc'';
          (linker, w2) = (if truthy cc then (cc, w1)
                          else (find_executable h ''gcc'', emit (Which ''gcc'') w1))
      in case linker of
           None \<Rightarrow> (Inr None, w2)
         | Some l \<Rightarrow>
             (case gcc_trace h l library w2 of
                (Inl e, w3) \<Rightarrow> (Inl e, w3)
              | (Inr Unbound, w3) \<Rightarrow> (Inl NameError, w3)
              | (Inr (Bound None), w3) \<Rightarrow> (Inr None, w3)
              | (Inr (Bound (Some trace)), w3) \<Rightarrow>
                  (case search (gcc_expr library) trace of
                     None \<Rightarrow> (Inr None, w3)
                   | Some m \<Rightarrow>
                       (let library_path = normpath (match_span m 0 3 trace)
                        in (Inr (Some (final_path h library_path)), w3)))))"

definition local_search :: "host \<Rightarrow> string \<Rightarrow> world \<Rightarrow> (exn + string option) \<times> world" where
  "local_search h library w =
     (let w1 = emit Getcwd w
      in case getcwd h of
           Inl n \<Rightarrow> (Inl (OSError n), w1)
         | Inr cwd \<Rightarrow>
             (let search_glob = path_join cwd (''lib'' @ library @ ''.so*'');
                  w2 = emit (Glob search_glob) w1
              in case find (isfile h) (glob h search_glob) of
                   Some filename \<Rightarrow> (Inr (Some (final_path h filename)), w2)
                 | None \<Rightarrow> (Inr None, w2)))"

text \<open>\<open>a or b or c\<close>: the first operand that is true, or the last one.\<close>

definition find_library :: "host \<Rightarrow> string \<Rightarrow> world \<Rightarrow> (exn + string option) \<times> world" where
  "find_library h library w =
     (case ldconfig_search h library w of
        (Inl e, w1) \<Rightarrow> (Inl e, w1)
      | (Inr r1, w1) \<Rightarrow>
          if truthy r1 then (Inr r1, w1)
          else (case gcc_search h library w1 of
                  (Inl e, w2) \<Rightarrow> (Inl e, w2)
                | (Inr r2, w2) \<Rightarrow>
                    if truthy r2 then (Inr r2, w2) else local_search h library w2))"

text \<open>\<open>r'\sSONAME\s+([^\s]+)'\<close>; its group 1 is what the last atom matched.\<close>

definition soname_expr :: "atom list" where
  "soname_expr = [One Space, Lit ''SONAME'', Plus Space, Plus NonSpace]"

definition soname :: "host \<Rightarrow> string \<Rightarrow> world \<Rightarrow> (exn + string option) \<times> world" where
  "soname h library_path w =
     (if \<not> isfile h library_path then (Inl AssertionError, w)
      else case execute h (''objdump -x -j .dynamic '' @ library_path) w of
             (Inl e, w1) \<Rightarrow> (Inl e, w1)
           | (Inr None, w1) \<Rightarrow> (Inr None, w1)
           | (Inr (Some dump), w1) \<Rightarrow>
               (case search soname_expr dump of
                  None \<Rightarrow> (Inr None, w1)
                | Some m \<Rightarrow> (Inr (Some (match_span m 3 4 dump)), w1)))"

section \<open>Notions used in the statements\<close>

text \<open>The interactions with the system between the state \<open>w\<close> and a later state
  \<open>w'\<close>.\<close>

definition since :: "world \<Rightarrow> world \<Rightarrow> event list" where
  "since w w' = drop (length (events w)) (events w')"

text \<open>\<open>find_executable('cc') or find_executable('gcc')\<close>, the linker of
  \<open>_gcc_search\<close>.\<close>

definition linker_of :: "host \<Rightarrow> string option" where
  "linker_of h = (if truthy (find_executable h ''cc'') then find_executable h ''cc''
                  else find_executable h ''gcc'')"

fun is_tmp_event :: "event \<Rightarrow> bool" where
  "is_tmp_event (TmpOpen _) = True"
| "is_tmp_event (TmpClose _) = True"
| "is_tmp_event _ = False"

definition objdump_command :: "string \<Rightarrow> string" where
  "objdump_command library_path = ''objdump -x -j .dynamic '' @ library_path"

subsection \<open>What a pattern matches\<close>

text \<open>The texts an atom matches. A sequence of atoms matches at the head of \<open>s\<close>
  when \<open>s\<close> begins with texts that the atoms match, one after the other.\<close>

fun atom_ok :: "atom \<Rightarrow> string \<Rightarrow> bool" where
  "atom_ok (Lit l) t = (t = l)"
| "atom_ok (One k) t = (\<exists>c. t = [c] \<and> in_class k c)"
| "atom_ok (Star k) t = (\<forall>c\<in>set t. in_class k c)"
| "atom_ok (Plus k) t = (t \<noteq> [] \<and> (\<forall>c\<in>set t. in_class k c))"

subsection \<open>Normalised components\<close>

text \<open>The components of a normalised path: none is empty, \<open>.\<close> or holds a
  separator; \<open>..\<close> stands only at the head of a relative path (\<open>k = 0\<close> initial
  slashes) and nowhere in an absolute one.\<close>

fun dots_first :: "string list \<Rightarrow> bool" where
  "dots_first [] = True"
| "dots_first (c # cs) = (if c = ''..'' then dots_first cs else ''..'' \<notin> set cs)"

definition normal_comps :: "nat \<Rightarrow> string list \<Rightarrow> bool" where
  "normal_comps k cs =
     ((\<forall>c\<in>set cs. c \<noteq> [] \<and> c \<noteq> ''.'' \<and> CHR ''/'' \<notin> set c)
      \<and> (if k = 0 then dots_first cs else ''..'' \<notin> set cs))"

subsection \<open>A GNU/Linux host and its variants\<close>

text \<open>The registry line of the docstring of \<open>_ldconfig_search\<close>, the path it
  gives, and the file that path links to.\<close>

definition libm_line :: string where
  "libm_line = ''libm.so.6 (libc6,x86-64, OS ABI: Linux 2.6.24) => /lib/x86_64-linux-gnu/libm.so.6''"

definition libm_path :: string where
  "libm_path = ''/lib/x86_64-linux-gnu/libm.so.6''"

definition libm_real :: string where
  "libm_real = ''/lib/x86_64-linux-gnu/libm-2.23.so''"

text \<open>The output of \<open>ldconfig -p\<close>: a header line, then one entry on each line
  after a tab. The entry of the 32-bit \<open>libm.so.6\<close> stands before the 64-bit one.\<close>

definition ldconfig_before :: string where
  "ldconfig_before =
     ''3 libs found in the cache'' @ [CHR 0x0A]
       @ [CHR 0x09] @ ''libm.so.6 (libc6) => /lib32/libm.so.6'' @ [CHR 0x0A]"

definition ldconfig_listing :: string where
  "ldconfig_listing =
     ldconfig_before @ [CHR 0x09] @ libm_line @ [CHR 0x0A]
       @ [CHR 0x09] @ ''libc.so.6 (libc6,x86-64) => /lib/x86_64-linux-gnu/libc.so.6'' @ [CHR 0x0A]"

definition objdump_dump :: string where
  "objdump_dump =
     ''Dynamic Section:'' @ [CHR 0x0A]
       @ ''  NEEDED               libc.so.6'' @ [CHR 0x0A]
       @ ''  SONAME               libm.so.6'' @ [CHR 0x0A]"

definition cc_trace :: string where
  "cc_trace = ''-lm (/lib/x86_64-linux-gnu/libm.so.6)'' @ [CHR 0x0A]"

text \<open>\<open>os.path.abspath(path)\<close> in the working directory \<open>cwd\<close>. On the hosts
  below \<open>libm.so.6\<close> is the only symbolic link: \<open>realpath\<close> is \<open>abspath\<close>
  but for that path.\<close>

definition abspath :: "string \<Rightarrow> string \<Rightarrow> string" where
  "abspath cwd path = normpath (path_join cwd path)"

definition w0 :: world where
  "w0 = \<lparr>events = [], open_tmp = [], tmp_paths = []\<rparr>"

definition host_glibc :: host where
  "host_glibc =
     \<lparr>find_executable =
        (\<lambda>name. if name = ''ldconfig'' then Some ''/sbin/ldconfig''
                else if name = ''cc'' then Some ''/usr/bin/cc''
                else None),
      popen =
        (\<lambda>argv. if argv = [''/sbin/ldconfig'', ''-p''] then Stdout ldconfig_listing
                else if argv = [''objdump'', ''-x'', ''-j'', ''.dynamic'', libm_real]
                  then Stdout objdump_dump
                else if argv = [''/usr/bin/cc'', ''-Wl,-t'', ''-o'', ''/tmp/tmpq3f8z1'', ''-lm'']
                  then Stdout cc_trace
                else Raises_OSError ENOENT),
      uname_machine = ''x86_64'',
      calcsize_l = 8,
      realpath = (\<lambda>p. if abspath ''/home/user'' p = libm_path then libm_real
                     else abspath ''/home/user'' p),
      getcwd = Inr ''/home/user'',
      glob = (\<lambda>pattern. []),
      isfile = (\<lambda>p. p = libm_real),
      mktemp = Inr ''/tmp/tmpq3f8z1'',
      tmp_exit = (\<lambda>name. Some ENOENT)\<rparr>"

text \<open>The same host without \<open>ldconfig\<close>, and where removing the temporary file
  raises nothing (the file is still there to be removed).\<close>

definition host_cc :: host where
  "host_cc = host_glibc\<lparr>find_executable :=
               (\<lambda>name. if name = ''cc'' then Some ''/usr/bin/cc'' else None),
             tmp_exit := (\<lambda>name. None)\<rparr>"

text \<open>A host with no tool and no file in the working directory.\<close>

definition host_empty :: host where
  "host_empty = host_glibc\<lparr>find_executable := (\<lambda>name. None)\<rparr>"

text \<open>A host with no tool, and the file \<open>libfoo.so.1\<close> in the working
  directory.\<close>

definition host_local :: host where
  "host_local =
     host_empty\<lparr>glob := (\<lambda>pattern. if pattern = ''/home/user/libfoo.so*''
                                then [''/home/user/libfoo.so.1''] else []),
                isfile := (\<lambda>p. p = ''/home/user/libfoo.so.1'')\<rparr>"

text \<open>A host that refuses to run any program: \<open>Popen\<close> raises \<open>PermissionError\<close>,
  the \<open>OSError\<close> with \<open>errno\<close> 13 (\<open>EACCES\<close>).\<close>

definition host_noexec :: host where
  "host_noexec = host_glibc\<lparr>popen := (\<lambda>argv. Raises_OSError 13)\<rparr>"

text \<open>A host where no temporary file can be made: \<open>NamedTemporaryFile()\<close> raises
  \<open>FileNotFoundError\<close>, as it does when no temporary directory is usable.\<close>

definition host_notmp :: host where
  "host_notmp = host_cc\<lparr>mktemp := Inl ENOENT\<rparr>"

text \<open>A host where the temporary file may not be made: \<open>NamedTemporaryFile()\<close>
  raises \<open>PermissionError\<close>.\<close>

definition host_tmp_denied :: host where
  "host_tmp_denied = host_cc\<lparr>mktemp := Inl 13\<rparr>"

text \<open>A host where the temporary file is made but may not be removed: \<open>os.unlink\<close>
  raises \<open>PermissionError\<close> when the \<open>with\<close> block is left.\<close>

definition host_tmp_stuck :: host where
  "host_tmp_stuck = host_cc\<lparr>tmp_exit := (\<lambda>name. Some 13)\<rparr>"

text \<open>A host whose \<open>ldconfig -p\<close> prints the registry line and nothing else (and so
  does any other program on it).\<close>

definition host_bare_line :: host where
  "host_bare_line = host_glibc\<lparr>popen := (\<lambda>argv. Stdout libm_line)\<rparr>"

text \<open>A host whose \<open>objdump\<close> prints the \<open>SONAME\<close> line and nothing else, and a
  host without \<open>objdump\<close>; on both every path is a regular file.\<close>

definition host_bare_dump :: host where
  "host_bare_dump = host_glibc\<lparr>popen := (\<lambda>argv. Stdout ''SONAME      libm.so.6''),
                                isfile := (\<lambda>p. True)\<rparr>"

definition host_no_objdump :: host where
  "host_no_objdump = host_glibc\<lparr>popen := (\<lambda>argv. Raises_OSError ENOENT),
                                 isfile := (\<lambda>p. True)\<rparr>"

text \<open>A host whose \<open>ldconfig -p\<close> output ends with the registry line, without a
  line break after it, and where no path is a symbolic link.\<close>

definition host_last_line :: host where
  "host_last_line = host_glibc\<lparr>popen := (\<lambda>argv. Stdout (CHR 0x09 # libm_line)),
                                realpath := abspath ''/home/user''\<rparr>"

section \<open>Facts about the library functions\<close>

subsection \<open>The command splitter raises nothing but ValueError\<close>

lemma read_tokens_exn: "read_tokens st es q tok out s = Inl e \<Longrightarrow> e = ValueError"
  by (induction st es q tok out s rule: read_tokens.induct) (auto simp: Let_def split: if_splits)

lemma shsplit_exn: "shsplit c = Inl e \<Longrightarrow> e = ValueError"
  unfolding shsplit_def by (rule read_tokens_exn)

subsection \<open>The backtracking matcher\<close>

lemma first_some_None: "(\<And>x. x \<in> set xs \<Longrightarrow> f x = None) \<Longrightarrow> first_some f xs = None"
  by (induction xs) auto

lemma first_some_greedy:
  assumes "a \<le> n" and "\<And>m. a \<le> m \<Longrightarrow> m < n \<Longrightarrow> f m = None"
  shows "first_some f (rev [a ..< Suc n]) = f n"
proof -
  have "first_some f (rev [a ..< n]) = None"
    by (rule first_some_None) (use assms in auto)
  moreover have "rev [a ..< Suc n] = n # rev [a ..< n]"
    using assms(1) by simp
  ultimately show ?thesis
    by (simp split: option.splits)
qed

lemma match_here_Lit:
  "match_here (Lit l # as) s =
     (if take (length l) s = l then map_option ((#) (length l)) (match_here as (drop (length l) s)) else None)"
  by (simp split: option.splits)

lemma nth_takeWhile_class: "m < length (takeWhile P s) \<Longrightarrow> P (s ! m)"
  by (metis nth_mem set_takeWhileD takeWhile_nth)

lemma in_class_Space: "in_class Space = is_space"
  by (rule ext) simp

lemma in_class_NonSpace: "in_class NonSpace = (\<lambda>c. \<not> is_space c)"
  by (rule ext) simp

text \<open>A greedy run followed by a literal that cannot begin inside the run: of all the
  lengths the run may take, only the whole run leaves the literal a chance.\<close>

lemma match_here_Plus_Lit:
  assumes "l \<noteq> []" and "\<not> in_class k (hd l)"
  shows "match_here (Plus k # Lit l # as) s =
           (let n = length (takeWhile (in_class k) s)
            in if 1 \<le> n then map_option ((#) n) (match_here (Lit l # as) (drop n s)) else None)"
proof -
  define n where "n = length (takeWhile (in_class k) s)"
  define f where "f = (\<lambda>m. map_option ((#) m) (match_here (Lit l # as) (drop m s)))"
  have short: "f m = None" if "m < n" for m
  proof -
    have "m < length s"
      using that length_takeWhile_le [of "in_class k" s] by (simp add: n_def)
    then have "hd (drop m s) = s ! m"
      by (simp add: hd_drop_conv_nth)
    moreover have "in_class k (s ! m)"
      using that unfolding n_def by (rule nth_takeWhile_class)
    ultimately have "hd (drop m s) \<noteq> hd l"
      using assms(2) by auto
    moreover have "hd (take (length l) (drop m s)) = hd (drop m s)"
      using assms(1) by (cases l; cases "drop m s"; simp)
    ultimately have "take (length l) (drop m s) \<noteq> l"
      by metis
    then show ?thesis
      by (simp add: f_def)
  qed
  have "match_here (Plus k # Lit l # as) s = first_some f (rev [1 ..< Suc n])"
    by (simp add: f_def n_def)
  also have "\<dots> = (if 1 \<le> n then f n else None)"
  proof (cases "1 \<le> n")
    case True
    then show ?thesis
      using first_some_greedy [of 1 n f] short by simp
  next
    case False
    then show ?thesis by simp
  qed
  finally show ?thesis
    by (simp add: f_def n_def Let_def)
qed

text \<open>When the rest of the pattern matches after the whole run, that is the match: the
  matcher tries the longest run first.\<close>

lemma match_here_Plus_first:
  assumes "n = length (takeWhile (in_class k) s)" and "1 \<le> n"
    and "match_here as (drop n s) = Some r"
  shows "match_here (Plus k # as) s = Some (n # r)"
proof -
  have "rev [1 ..< Suc n] = n # rev [1 ..< n]"
    using assms(2) by simp
  then show ?thesis
    using assms(1,3) by simp
qed

lemma match_here_One_Lit:
  "match_here (One k # Lit l # as) (x # t) =
     (if in_class k x \<and> take (length l) t = l
      then map_option (\<lambda>r. 1 # length l # r) (match_here as (drop (length l) t)) else None)"
  by (simp add: option.map_comp comp_def split: option.splits)

text \<open>A literal that does not occur in \<open>pre\<close> and does not hold the character
  \<open>c\<close> cannot be read at a position of \<open>pre\<close> in \<open>pre @ c # rest\<close>.\<close>

lemma literal_overlap0:
  assumes "take (length lit) (b @ c # rest) = lit"
  shows "sublist lit b \<or> c \<in> set lit"
proof (cases "length lit \<le> length b")
  case True
  then have "lit = take (length lit) b"
    using assms by simp
  then have "b = [] @ lit @ drop (length lit) b"
    by (metis append_Nil append_take_drop_id)
  then show ?thesis
    unfolding sublist_def by blast
next
  case False
  then have "lit = b @ take (length lit - length b) (c # rest)"
    using assms by simp
  moreover have "take (length lit - length b) (c # rest) = c # take (length lit - length b - 1) rest"
    using False by (cases "length lit - length b") auto
  ultimately have "c \<in> set lit"
    by (metis in_set_conv_decomp)
  then show ?thesis ..
qed

lemma literal_overlap:
  assumes "\<not> sublist lit pre" and "c \<notin> set lit" and "n \<le> length pre"
  shows "take (length lit) (drop n (pre @ c # rest)) \<noteq> lit"
proof
  assume "take (length lit) (drop n (pre @ c # rest)) = lit"
  moreover have "drop n (pre @ c # rest) = drop n pre @ c # rest"
    using assms(3) by simp
  ultimately have "take (length lit) (drop n pre @ c # rest) = lit"
    by metis
  then have "sublist lit (drop n pre) \<or> c \<in> set lit"
    by (rule literal_overlap0)
  moreover have "sublist (drop n pre) pre"
    by (rule sublist_drop)
  ultimately show False
    using assms(1,2) sublist_order.order_trans by blast
qed

text \<open>The matcher finds a match exactly when there is one: when the text begins with
  pieces that the atoms match in turn.\<close>

lemma first_some_None_iff: "first_some f xs = None \<longleftrightarrow> (\<forall>x\<in>set xs. f x = None)"
  by (induction xs) (auto split: option.splits)

lemma run_le_iff:
  "n \<le> length (takeWhile P s) \<longleftrightarrow> n \<le> length s \<and> (\<forall>c\<in>set (take n s). P c)"
proof (induction s arbitrary: n)
  case Nil
  show ?case by simp
next
  case (Cons x s)
  show ?case
    by (cases n) (auto simp: Cons.IH)
qed

lemma atom_alts_iff: "n \<in> set (atom_alts a s) \<longleftrightarrow> n \<le> length s \<and> atom_ok a (take n s)"
proof (cases a)
  case (Lit l)
  show ?thesis
  proof
    assume "n \<in> set (atom_alts a s)"
    with Lit have "take (length l) s = l" "n = length l"
      by (auto split: if_splits)
    then show "n \<le> length s \<and> atom_ok a (take n s)"
      using Lit by (metis atom_ok.simps(1) length_take min.cobounded1)
  next
    assume "n \<le> length s \<and> atom_ok a (take n s)"
    with Lit show "n \<in> set (atom_alts a s)"
      by auto
  qed
next
  case (One k)
  then show ?thesis
    by (cases s; cases n) (auto simp: take_Suc_conv_app_nth)
next
  case (Star k)
  then show ?thesis
    using run_le_iff [of n "in_class k" s] by auto
next
  case (Plus k)
  then show ?thesis
    using run_le_iff [of n "in_class k" s] by (cases n) auto
qed

lemma prefix_append_take:
  "prefix (t @ u) s \<longleftrightarrow> length t \<le> length s \<and> take (length t) s = t \<and> prefix u (drop (length t) s)"
  by (auto simp: prefix_def) (metis append_take_drop_id)

lemma match_here_None_iff:
  "match_here p s = None \<longleftrightarrow> (\<forall>ts. list_all2 atom_ok p ts \<longrightarrow> \<not> prefix (concat ts) s)"
proof (induction p arbitrary: s)
  case Nil
  show ?case by simp
next
  case (Cons a as)
  have "match_here (a # as) s = None
          \<longleftrightarrow> (\<forall>n\<in>set (atom_alts a s). match_here as (drop n s) = None)"
    by (simp add: first_some_None_iff)
  also have "\<dots> \<longleftrightarrow> (\<forall>n. n \<le> length s \<and> atom_ok a (take n s) \<longrightarrow>
                        (\<forall>ts. list_all2 atom_ok as ts \<longrightarrow> \<not> prefix (concat ts) (drop n s)))"
    unfolding Cons.IH Ball_def atom_alts_iff ..
  also have "\<dots> \<longleftrightarrow> (\<forall>t ts. atom_ok a t \<and> list_all2 atom_ok as ts \<longrightarrow> \<not> prefix (t @ concat ts) s)"
  proof (intro iffI allI impI)
    fix t ts
    assume h: "\<forall>n. n \<le> length s \<and> atom_ok a (take n s) \<longrightarrow>
                 (\<forall>ts. list_all2 atom_ok as ts \<longrightarrow> \<not> prefix (concat ts) (drop n s))"
      and ok: "atom_ok a t \<and> list_all2 atom_ok as ts"
    show "\<not> prefix (t @ concat ts) s"
    proof
      assume "prefix (t @ concat ts) s"
      then have "length t \<le> length s" "take (length t) s = t" "prefix (concat ts) (drop (length t) s)"
        by (simp_all add: prefix_append_take)
      with h ok show False
        by metis
    qed
  next
    fix n ts
    assume h: "\<forall>t ts. atom_ok a t \<and> list_all2 atom_ok as ts \<longrightarrow> \<not> prefix (t @ concat ts) s"
      and n: "n \<le> length s \<and> atom_ok a (take n s)" and ok: "list_all2 atom_ok as ts"
    show "\<not> prefix (concat ts) (drop n s)"
    proof
      assume "prefix (concat ts) (drop n s)"
      with n have "prefix (take n s @ concat ts) s"
        by (simp add: prefix_append_take)
      with h n ok show False
        by blast
    qed
  qed
  also have "\<dots> \<longleftrightarrow> (\<forall>ts. list_all2 atom_ok (a # as) ts \<longrightarrow> \<not> prefix (concat ts) s)"
  proof (intro iffI allI impI)
    fix ts
    assume h: "\<forall>t ts. atom_ok a t \<and> list_all2 atom_ok as ts \<longrightarrow> \<not> prefix (t @ concat ts) s"
      and "list_all2 atom_ok (a # as) ts"
    then obtain t ts' where "ts = t # ts'" "atom_ok a t" "list_all2 atom_ok as ts'"
      by (auto simp: list_all2_Cons1)
    with h show "\<not> prefix (concat ts) s"
      by simp
  next
    fix t ts
    assume h: "\<forall>ts. list_all2 atom_ok (a # as) ts \<longrightarrow> \<not> prefix (concat ts) s"
      and "atom_ok a t \<and> list_all2 atom_ok as ts"
    then have "list_all2 atom_ok (a # as) (t # ts)"
      by simp
    with h have "\<not> prefix (concat (t # ts)) s"
      by blast
    then show "\<not> prefix (t @ concat ts) s"
      by simp
  qed
  finally show ?case .
qed

lemma match_here_SomeD:
  "match_here p s \<noteq> None \<Longrightarrow> \<exists>ts. list_all2 atom_ok p ts \<and> prefix (concat ts) s"
  unfolding match_here_None_iff by simp

lemma match_here_SomeI:
  "list_all2 atom_ok p ts \<Longrightarrow> prefix (concat ts) s \<Longrightarrow> match_here p s \<noteq> None"
  unfolding match_here_None_iff by blast

lemma prefix_shorter: "prefix m (x @ y) \<Longrightarrow> length m \<le> length x \<Longrightarrow> prefix m x"
  by (metis prefix_append prefix_length_prefix prefix_order.order_refl)

lemma prefix_nth: "prefix m s \<Longrightarrow> j < length m \<Longrightarrow> m ! j = s ! j"
  by (auto simp: prefix_def nth_append)

lemma search_from_NoneD:
  "search_from p (x # s) j = None \<Longrightarrow> match_here p (x # s) = None \<and> search_from p s (Suc j) = None"
  by (simp split: option.splits)

subsection \<open>Slicing and searching for a character\<close>

lemma find_from_append: "c \<notin> set a \<Longrightarrow> find_from c (a @ c # b) i = int (i + length a)"
  by (induction a arbitrary: i) auto

lemma slice_nat: "b \<le> length s \<Longrightarrow> slice s a (int b) = take (b - a) (drop a s)"
  by (simp add: slice_def)

lemma take_drop_middle: "take (length t) (drop (length a) (a @ t @ r)) = t"
  by simp

subsection \<open>Path normalisation is idempotent\<close>

lemma dots_first_snoc:
  "dots_first (cs @ [c]) = (dots_first cs \<and> (c = ''..'' \<longrightarrow> set cs \<subseteq> {''..''}))"
  by (induction cs) auto

lemma dots_first_last:
  "dots_first cs \<Longrightarrow> cs \<noteq> [] \<Longrightarrow> last cs = ''..'' \<Longrightarrow> set cs \<subseteq> {''..''}"
  by (induction cs) (auto split: if_splits dest: last_in_set)

lemma dots_first_butlast: "dots_first cs \<Longrightarrow> dots_first (butlast cs)"
  by (induction cs) (auto split: if_splits dest: in_set_butlastD)

lemma dots_first_append_left: "dots_first (as @ bs) \<Longrightarrow> dots_first as"
  by (induction as) (auto split: if_splits)

text \<open>A round of the loop of \<open>normpath\<close> keeps the components normalised, and
  running the loop over normalised components gives them back.\<close>

lemma norm_step_cases:
  "norm_step k acc part = acc \<or> norm_step k acc part = butlast acc
   \<or> (norm_step k acc part = acc @ [part] \<and> part \<noteq> [] \<and> part \<noteq> ''.''
       \<and> (part = ''..'' \<longrightarrow> (k = 0 \<and> acc = []) \<or> (acc \<noteq> [] \<and> last acc = ''..'')))"
  by (auto simp: norm_step_def)

lemma normal_comps_butlast: "normal_comps k acc \<Longrightarrow> normal_comps k (butlast acc)"
  by (auto simp: normal_comps_def dots_first_butlast dest: in_set_butlastD)

lemma normal_comps_snoc:
  assumes "normal_comps k acc" and "CHR ''/'' \<notin> set part" and "part \<noteq> []" and "part \<noteq> ''.''"
    and "part = ''..'' \<longrightarrow> (k = 0 \<and> acc = []) \<or> (acc \<noteq> [] \<and> last acc = ''..'')"
  shows "normal_comps k (acc @ [part])"
proof (cases "k = 0")
  case True
  have "set acc \<subseteq> {''..''}" if "part = ''..''"
  proof (cases "acc = []")
    case False
    with assms(5) that have "last acc = ''..''" by simp
    with assms(1) True False show ?thesis
      by (intro dots_first_last) (simp_all add: normal_comps_def)
  qed simp
  with assms(1-4) True show ?thesis
    by (simp add: normal_comps_def dots_first_snoc)
next
  case False
  with assms(5) have "part = ''..'' \<longrightarrow> ''..'' \<in> set acc"
    using last_in_set by metis
  with assms(1-4) False show ?thesis
    by (auto simp: normal_comps_def)
qed

lemma normal_comps_step:
  assumes "normal_comps k acc" and "CHR ''/'' \<notin> set part"
  shows "normal_comps k (norm_step k acc part)"
proof -
  consider "norm_step k acc part = acc" | "norm_step k acc part = butlast acc"
    | "norm_step k acc part = acc @ [part]" "part \<noteq> []" "part \<noteq> ''.''"
      "part = ''..'' \<longrightarrow> (k = 0 \<and> acc = []) \<or> (acc \<noteq> [] \<and> last acc = ''..'')"
    using norm_step_cases [of k acc part] by blast
  then show ?thesis
  proof cases
    case 1
    with assms(1) show ?thesis by simp
  next
    case 2
    with assms(1) show ?thesis by (simp add: normal_comps_butlast)
  next
    case 3
    with assms show ?thesis by (simp add: normal_comps_snoc)
  qed
qed

lemma normal_comps_foldl:
  assumes "normal_comps k acc" and "\<forall>x\<in>set xs. CHR ''/'' \<notin> set x"
  shows "normal_comps k (foldl (norm_step k) acc xs)"
  using assms by (induction xs arbitrary: acc) (auto intro: normal_comps_step)

lemma foldl_normal:
  assumes "normal_comps k (acc @ cs)"
  shows "foldl (norm_step k) acc cs = acc @ cs"
  using assms
proof (induction cs arbitrary: acc)
  case Nil
  show ?case by simp
next
  case (Cons c cs)
  have n: "normal_comps k ((acc @ [c]) @ cs)"
    using Cons.prems by simp
  have "norm_step k acc c = acc @ [c]"
  proof (cases "c = ''..''")
    case False
    with Cons.prems show ?thesis
      by (auto simp: normal_comps_def norm_step_def)
  next
    case True
    with Cons.prems have "k = 0"
      by (auto simp: normal_comps_def split: if_splits)
    with n have "dots_first (acc @ [c])"
      using dots_first_append_left by (auto simp: normal_comps_def)
    with True have "set acc \<subseteq> {''..''}"
      by (simp add: dots_first_snoc)
    then have "acc = [] \<or> last acc = ''..''"
      by (cases acc rule: rev_cases) auto
    with True \<open>k = 0\<close> show ?thesis
      by (auto simp: norm_step_def)
  qed
  with Cons.IH [OF n] show ?case
    by simp
qed

text \<open>Splitting at the separator undoes joining with it.\<close>

lemma split_acc_slash:
  "split_acc ''/'' acc (x # xs) =
     (if x = CHR ''/'' then rev acc # split_acc ''/'' [] xs else split_acc ''/'' (x # acc) xs)"
  by simp

lemma split_acc_piece:
  "CHR ''/'' \<notin> set x \<Longrightarrow> split_acc ''/'' acc (x @ rest) = split_acc ''/'' (rev x @ acc) rest"
  by (induction x arbitrary: acc) (auto simp del: split_acc.simps(2) simp add: split_acc_slash)

lemma split_acc_no_slash:
  "CHR ''/'' \<notin> set acc \<Longrightarrow> piece \<in> set (split_acc ''/'' acc s) \<Longrightarrow> CHR ''/'' \<notin> set piece"
proof (induction s arbitrary: acc)
  case Nil
  then show ?case by simp
next
  case (Cons x s)
  show ?case
  proof (cases "x = CHR ''/''")
    case True
    with Cons.prems have "piece = rev acc \<or> piece \<in> set (split_acc ''/'' [] s)"
      by (simp del: split_acc.simps(2) add: split_acc_slash)
    with Cons.prems(1) Cons.IH [of "[]"] show ?thesis
      by auto
  next
    case False
    with Cons.prems have "piece \<in> set (split_acc ''/'' (x # acc) s)"
      by (simp del: split_acc.simps(2) add: split_acc_slash)
    with Cons.prems(1) False Cons.IH [of "x # acc"] show ?thesis
      by simp
  qed
qed

lemma split_acc_join:
  "\<forall>c\<in>set (x # xs). CHR ''/'' \<notin> set c \<Longrightarrow>
     split_acc ''/'' acc (sep_join ''/'' (x # xs)) = (rev acc @ x) # xs"
proof (induction xs arbitrary: x acc)
  case Nil
  then show ?case
    using split_acc_piece [of x acc "[]"] by simp
next
  case (Cons y ys)
  have "split_acc ''/'' acc (sep_join ''/'' (x # y # ys))
          = split_acc ''/'' (rev x @ acc) (CHR ''/'' # sep_join ''/'' (y # ys))"
    using Cons.prems split_acc_piece [of x acc "CHR ''/'' # sep_join ''/'' (y # ys)"] by simp
  also have "\<dots> = (rev acc @ x) # split_acc ''/'' [] (sep_join ''/'' (y # ys))"
    by (simp del: split_acc.simps(2) add: split_acc_slash)
  also have "split_acc ''/'' [] (sep_join ''/'' (y # ys)) = y # ys"
    using Cons.IH [of y "[]"] Cons.prems by simp
  finally show ?case .
qed

lemma sep_join_Cons:
  "sep_join sep (c # cs) = c @ (if cs = [] then [] else sep @ sep_join sep cs)"
  by (cases cs) simp_all

lemma foldl_skip_empty: "foldl (norm_step k) acc (replicate n [] @ xs) = foldl (norm_step k) acc xs"
  by (induction n) (simp_all add: norm_step_def)

lemma normpath_normal:
  assumes "normal_comps k cs" and "k \<le> 2" and "replicate k CHR ''/'' @ sep_join ''/'' cs \<noteq> []"
  shows "normpath (replicate k CHR ''/'' @ sep_join ''/'' cs) = replicate k CHR ''/'' @ sep_join ''/'' cs"
proof (cases cs)
  case Nil
  with assms(2,3) have "k = 1 \<or> k = 2"
    by (cases k) auto
  then show ?thesis
    using Nil by (auto simp: normpath_def str_split_def norm_step_def numeral_2_eq_2)
next
  case (Cons c cs')
  define t where "t = (if cs' = [] then [] else ''/'' @ sep_join ''/'' cs')"
  have j: "sep_join ''/'' cs = c @ t"
    by (simp add: Cons t_def sep_join_Cons)
  from assms(1) Cons obtain a c' where c: "c = a # c'" "a \<noteq> CHR ''/''"
    by (cases c) (auto simp: normal_comps_def)
  have noslash: "\<forall>x\<in>set (c # cs'). CHR ''/'' \<notin> set x"
    using assms(1) Cons by (simp add: normal_comps_def)
  have sp: "split_acc ''/'' [] (sep_join ''/'' cs) = cs"
    using split_acc_join [OF noslash, of "[]"] Cons by simp
  have fold: "foldl (norm_step k) [] cs = cs"
    using foldl_normal [of k "[]" cs] assms(1) by simp
  from assms(2) consider "k = 0" | "k = 1" | "k = 2"
    by linarith
  then show ?thesis
  proof cases
    case 1
    have "str_split ''/'' (sep_join ''/'' cs) = replicate 0 [] @ cs"
      by (simp add: str_split_def sp)
    then show ?thesis
      unfolding 1 using fold [unfolded 1] j c
      by (simp add: normpath_def Let_def)
  next
    case 2
    have "str_split ''/'' (CHR ''/'' # sep_join ''/'' cs) = replicate 1 [] @ cs"
      by (simp add: str_split_def sp del: split_acc.simps(2) add: split_acc_slash)
    then show ?thesis
      unfolding 2 using fold [unfolded 2] j c foldl_skip_empty [of 1 "[]" 1 cs]
      by (simp add: normpath_def Let_def)
  next
    case 3
    have "str_split ''/'' (CHR ''/'' # CHR ''/'' # sep_join ''/'' cs) = replicate 2 [] @ cs"
      by (simp add: str_split_def sp numeral_2_eq_2 del: split_acc.simps(2) add: split_acc_slash)
    then show ?thesis
      unfolding 3 using fold [unfolded 3] j c foldl_skip_empty [of 2 "[]" 2 cs]
      by (simp add: normpath_def Let_def numeral_2_eq_2)
  qed
qed

lemma normpath_dot: "normpath ''.'' = ''.''"
  by (simp add: normpath_def str_split_def norm_step_def)

lemma normpath_idempotent: "normpath (normpath p) = normpath p"
proof (cases "p = []")
  case True
  then have "normpath p = ''.''"
    by (simp add: normpath_def)
  then show ?thesis
    by (simp add: normpath_dot)
next
  case False
  define k :: nat where
    "k = (if take 1 p = ''/'' then (if take 2 p = ''//'' \<and> take 3 p \<noteq> ''///'' then 2 else 1) else 0)"
  define cs where "cs = foldl (norm_step k) [] (str_split ''/'' p)"
  define r where "r = replicate k CHR ''/'' @ sep_join ''/'' cs"
  have n: "normpath p = (if r = [] then ''.'' else r)"
    using False by (simp add: normpath_def Let_def k_def cs_def r_def)
  have "normal_comps k []"
    by (simp add: normal_comps_def)
  moreover have "\<forall>x\<in>set (str_split ''/'' p). CHR ''/'' \<notin> set x"
    unfolding str_split_def using split_acc_no_slash [of "[]"] by simp
  ultimately have "normal_comps k cs"
    unfolding cs_def by (rule normal_comps_foldl)
  moreover have "k \<le> 2"
    by (simp add: k_def)
  ultimately have "r \<noteq> [] \<Longrightarrow> normpath r = r"
    unfolding r_def by (rule normpath_normal)
  then show ?thesis
    by (simp add: n normpath_dot)
qed

lemma normpath_nonempty: "normpath p \<noteq> []"
  by (simp add: normpath_def Let_def)

lemma normpath_absolute: "take 1 p = ''/'' \<Longrightarrow> take 1 (normpath p) = ''/''"
  by (auto simp: normpath_def Let_def)

lemma abspath_absolute: "take 1 cwd = ''/'' \<Longrightarrow> take 1 (abspath cwd p) = ''/''"
  unfolding abspath_def
  by (rule normpath_absolute) (cases cwd; cases p; auto simp: path_join_def)

lemma abspath_normal: "normpath (abspath cwd p) = abspath cwd p"
  by (simp add: abspath_def normpath_idempotent)

lemma abspath_fixed: "take 1 a = ''/'' \<Longrightarrow> normpath a = a \<Longrightarrow> abspath cwd a = a"
  by (cases a) (auto simp: abspath_def path_join_def)

section \<open>Facts about the program\<close>

subsection \<open>Effects\<close>

lemma events_emit: "events (emit e w) = events w @ [e]" by (simp add: emit_def)

lemma open_tmp_emit: "open_tmp (emit e w) = open_tmp w" by (simp add: emit_def)

lemma events_tmp_enter: "events (tmp_enter n w) = events w @ [TmpOpen n]"
  by (simp add: tmp_enter_def emit_def)

lemma events_tmp_leave: "events (tmp_leave f n w) = events w @ [TmpClose n]"
  by (simp add: tmp_leave_def emit_def)

lemma open_tmp_enter: "open_tmp (tmp_enter n w) = n # open_tmp w"
  by (simp add: tmp_enter_def emit_def)

lemma open_tmp_leave: "open_tmp (tmp_leave f n w) = remove1 n (open_tmp w)"
  by (simp add: tmp_leave_def emit_def)

lemma tmp_paths_emit: "tmp_paths (emit e w) = tmp_paths w" by (simp add: emit_def)

lemma tmp_paths_enter: "tmp_paths (tmp_enter n w) = n # tmp_paths w"
  by (simp add: tmp_enter_def emit_def)

lemma tmp_paths_leave:
  "tmp_paths (tmp_leave f n w) =
     (if f = None \<or> f = Some ENOENT then remove1 n (tmp_paths w) else tmp_paths w)"
  by (simp add: tmp_leave_def emit_def split: option.splits)

lemma since_append: "events w' = events w @ evs \<Longrightarrow> since w w' = evs"
  by (simp add: since_def)

lemma execute_cases:
  "execute h c w =
     (case shsplit c of
        Inl e \<Rightarrow> (Inl e, w)
      | Inr argv \<Rightarrow>
          (case popen h argv of
             Raises_OSError n \<Rightarrow> Inr None
           | Raises_ValueError \<Rightarrow> Inl ValueError
           | Stdout out \<Rightarrow> Inr (Some out)
           | Stdout_invalid_utf8 \<Rightarrow> Inl UnicodeDecodeError, emit (Spawn argv) w))"
  by (simp add: execute_def Let_def split: sum.splits popen_result.splits)

lemma execute_exn:
  "fst (execute h c w) = Inl e \<Longrightarrow> e = ValueError \<or> e = UnicodeDecodeError"
  by (auto simp: execute_cases dest: shsplit_exn split: sum.splits popen_result.splits)

lemma execute_exn_pair:
  "execute h c w = (Inl e, w') \<Longrightarrow> e = ValueError \<or> e = UnicodeDecodeError"
  using execute_exn [of h c w e] by simp

lemma execute_open_tmp: "open_tmp (snd (execute h c w)) = open_tmp w"
   by (auto simp: execute_cases open_tmp_emit split: sum.splits popen_result.splits)

lemma execute_tmp_paths: "tmp_paths (snd (execute h c w)) = tmp_paths w"
   by (auto simp: execute_cases tmp_paths_emit split: sum.splits popen_result.splits)

lemma execute_events:
  "events (snd (execute h c w)) = events w @ (case shsplit c of Inl _ \<Rightarrow> [] | Inr argv \<Rightarrow> [Spawn argv])"
   by (auto simp: execute_cases events_emit split: sum.splits popen_result.splits)

lemma ldconfig_search_world:
  "snd (ldconfig_search h library w) =
     (case find_executable h ''ldconfig'' of
        None \<Rightarrow> emit (Which ''ldconfig'') w
      | Some exe \<Rightarrow> snd (execute h (exe @ '' -p'') (emit (Which ''ldconfig'') w)))"
  by (simp add: ldconfig_search_def Let_def split: option.splits sum.splits prod.splits)

lemma ldconfig_search_events:
  "events (snd (ldconfig_search h library w)) =
     events w @ Which ''ldconfig'' #
       (case find_executable h ''ldconfig'' of
          None \<Rightarrow> []
        | Some exe \<Rightarrow> (case shsplit (exe @ '' -p'') of Inl _ \<Rightarrow> [] | Inr argv \<Rightarrow> [Spawn argv]))"
  by (simp add: ldconfig_search_world execute_events events_emit split: option.splits)

lemma ldconfig_search_since:
  "set (since w (snd (ldconfig_search h library w))) \<subseteq> insert (Which ''ldconfig'') (range Spawn)"
  by (auto simp: since_append [OF ldconfig_search_events] split: option.splits sum.splits)

lemma gcc_trace_world:
  "snd (gcc_trace h l library w) =
     (case mktemp h of
        Inl n \<Rightarrow> w
      | Inr name \<Rightarrow>
          tmp_leave (tmp_exit h name) name
            (snd (execute h (gcc_command l name library) (tmp_enter name w))))"
  by (simp add: gcc_trace_def Let_def split: sum.splits option.splits prod.splits)

lemma gcc_trace_open_tmp: "open_tmp (snd (gcc_trace h l library w)) = open_tmp w"
  by (simp add: gcc_trace_world open_tmp_leave execute_open_tmp open_tmp_enter split: sum.splits)

lemma gcc_trace_tmp_paths:
  "tmp_paths (snd (gcc_trace h l library w)) =
     (case mktemp h of
        Inl n \<Rightarrow> tmp_paths w
      | Inr name \<Rightarrow>
          if tmp_exit h name = None \<or> tmp_exit h name = Some ENOENT then tmp_paths w
          else name # tmp_paths w)"
  by (simp add: gcc_trace_world tmp_paths_leave execute_tmp_paths tmp_paths_enter
           split: sum.splits)

lemma gcc_trace_unlink_error:
  assumes "mktemp h = Inr name" and "tmp_exit h name = Some n" and "n \<noteq> ENOENT"
  shows "fst (gcc_trace h l library w) = Inl (OSError n)"
  using assms by (simp add: gcc_trace_def Let_def split: prod.splits)

lemma gcc_trace_spawn_error:
  assumes "mktemp h = Inr name" and "tmp_exit h name = None \<or> tmp_exit h name = Some ENOENT"
    and "shsplit (gcc_command l name library) = Inr argv" and "popen h argv = Raises_OSError n"
  shows "fst (gcc_trace h l library w) = Inr (Bound None)"
  using assms by (auto simp: gcc_trace_def execute_cases Let_def)

lemma gcc_trace_events:
  "events (snd (gcc_trace h l library w)) =
     events w @
     (case mktemp h of
        Inl n \<Rightarrow> []
      | Inr name \<Rightarrow>
          TmpOpen name #
          (case shsplit (gcc_command l name library) of Inl _ \<Rightarrow> [] | Inr argv \<Rightarrow> [Spawn argv])
          @ [TmpClose name])"
  by (simp add: gcc_trace_world events_tmp_leave execute_events events_tmp_enter split: sum.splits)

lemma gcc_search_world:
  "snd (gcc_search h library w) =
     (let w2 = (if truthy (find_executable h ''cc'') then emit (Which ''cc'') w
                else emit (Which ''gcc'') (emit (Which ''cc'') w))
      in case linker_of h of
           None \<Rightarrow> w2
         | Some l \<Rightarrow> snd (gcc_trace h l library w2))"
  by (simp add: gcc_search_def linker_of_def Let_def
           split: sum.splits option.splits prod.splits binding.splits)

lemma gcc_search_open_tmp: "open_tmp (snd (gcc_search h library w)) = open_tmp w"
  by (simp add: gcc_search_world Let_def gcc_trace_open_tmp open_tmp_emit split: option.splits)

lemma gcc_search_tmp_paths:
  "tmp_paths (snd (gcc_search h library w)) =
     (case linker_of h of
        None \<Rightarrow> tmp_paths w
      | Some l \<Rightarrow>
          (case mktemp h of
             Inl n \<Rightarrow> tmp_paths w
           | Inr name \<Rightarrow>
               if tmp_exit h name = None \<or> tmp_exit h name = Some ENOENT then tmp_paths w
               else name # tmp_paths w))"
  by (simp add: gcc_search_world Let_def gcc_trace_tmp_paths tmp_paths_emit
           split: option.splits sum.splits)

lemma gcc_search_fst:
  "fst (gcc_search h library w) =
     (case linker_of h of
        None \<Rightarrow> Inr None
      | Some l \<Rightarrow>
          (case fst (gcc_trace h l library
                       (if truthy (find_executable h ''cc'') then emit (Which ''cc'') w
                        else emit (Which ''gcc'') (emit (Which ''cc'') w))) of
             Inl e \<Rightarrow> Inl e
           | Inr Unbound \<Rightarrow> Inl NameError
           | Inr (Bound None) \<Rightarrow> Inr None
           | Inr (Bound (Some trace)) \<Rightarrow>
               (case search (gcc_expr library) trace of
                  None \<Rightarrow> Inr None
                | Some m \<Rightarrow> Inr (Some (final_path h (normpath (match_span m 0 3 trace)))))))"
  by (simp add: gcc_search_def linker_of_def Let_def
           split: sum.splits option.splits prod.splits binding.splits)

lemma gcc_search_since:
  "set (since w (snd (gcc_search h library w)))
     \<subseteq> {Which ''cc'', Which ''gcc''} \<union> range Spawn \<union> range TmpOpen \<union> range TmpClose"
proof -
  have "\<exists>evs. events (snd (gcc_search h library w)) = events w @ evs
          \<and> set evs \<subseteq> {Which ''cc'', Which ''gcc''} \<union> range Spawn \<union> range TmpOpen \<union> range TmpClose"
    by (auto simp: gcc_search_world Let_def events_emit gcc_trace_events
             split: option.splits sum.splits)
  then show ?thesis
    by (auto simp: since_def)
qed

lemma gcc_search_since_cc: "Which ''cc'' \<in> set (since w (snd (gcc_search h library w)))"
proof -
  have "\<exists>evs. events (snd (gcc_search h library w)) = events w @ Which ''cc'' # evs"
    by (auto simp: gcc_search_world Let_def events_emit gcc_trace_events split: option.splits)
  then show ?thesis
    by (auto simp: since_def)
qed

lemma local_search_since_cwd: "Getcwd \<in> set (since w (snd (local_search h library w)))"
proof -
  have "\<exists>evs. events (snd (local_search h library w)) = events w @ Getcwd # evs"
    by (auto simp: local_search_def Let_def events_emit split: option.splits sum.splits)
  then show ?thesis
    by (auto simp: since_def)
qed

subsection \<open>Every path that is returned went through \<open>_final_path\<close>\<close>

lemma ldconfig_search_result:
  "fst (ldconfig_search h library w) = Inr (Some p) \<Longrightarrow> \<exists>q. p = final_path h q"
  by (auto simp: ldconfig_search_def Let_def split: option.splits sum.splits prod.splits)

lemma gcc_search_result:
  "fst (gcc_search h library w) = Inr (Some p) \<Longrightarrow> \<exists>q. p = final_path h q"
  by (auto simp: gcc_search_def Let_def
           split: option.splits sum.splits prod.splits binding.splits if_splits)

lemma local_search_result:
  "fst (local_search h library w) = Inr (Some p) \<Longrightarrow> \<exists>q. p = final_path h q"
  by (auto simp: local_search_def Let_def split: option.splits sum.splits)

lemma find_library_result:
  assumes "fst (find_library h library w) = Inr (Some p)"
  shows "\<exists>q. p = final_path h q"
proof -
  have "fst (ldconfig_search h library w) = Inr (Some p)
        \<or> (\<exists>w1. fst (gcc_search h library w1) = Inr (Some p))
        \<or> (\<exists>w2. fst (local_search h library w2) = Inr (Some p))"
    using assms
    by (auto simp: find_library_def split: prod.splits sum.splits if_splits)
       (metis fst_conv)+
  then show ?thesis
    using ldconfig_search_result gcc_search_result local_search_result by blast
qed

subsection \<open>The registry line\<close>

lemma not_space_l: "\<not> is_space CHR ''l''"
  by (simp add: is_space_def)

lemma ldconfig_line_tail:
  "match_here [Lit ''libm.'', Plus NonSpace, Plus Space, Lit ''(libc6,x86-64'']
     (libm_line @ CHR 0x0A # post) = Some [5, 4, 1, 13]"
  by (simp add: libm_line_def is_space_def)

lemma ldconfig_match_at_line:
  assumes "ws \<noteq> []" and "\<forall>x\<in>set ws. is_space x"
  shows "match_here (ldconfig_expr ''m'' ''libc6,x86-64'') (ws @ libm_line @ CHR 0x0A # post)
           = Some [length ws, 5, 4, 1, 13]"
proof -
  have "takeWhile is_space (libm_line @ CHR 0x0A # post) = []"
    by (simp add: libm_line_def not_space_l)
  then have run: "takeWhile (in_class Space) (ws @ libm_line @ CHR 0x0A # post) = ws"
    using assms(2) by (simp add: in_class_Space)
  have "match_here (Plus Space # Lit ''libm.'' # [Plus NonSpace, Plus Space, Lit ''(libc6,x86-64''])
          (ws @ libm_line @ CHR 0x0A # post)
        = map_option ((#) (length ws))
            (match_here [Lit ''libm.'', Plus NonSpace, Plus Space, Lit ''(libc6,x86-64'']
               (libm_line @ CHR 0x0A # post))"
    using assms(1)
    by (subst match_here_Plus_Lit) (simp_all add: not_space_l run Let_def Suc_le_eq)
  then show ?thesis
    by (simp only: ldconfig_line_tail ldconfig_expr_def append.simps option.map)
qed

text \<open>A match that begins before the whitespace \<open>c\<close>, in a text that is not all
  whitespace up to \<open>c\<close>, ends at \<open>c\<close> at the latest when the character
  after \<open>c\<close> is neither whitespace nor the head of the last literal: what follows
  \<open>c\<close> plays no part in it.\<close>

lemma match_before_line:
  assumes c: "is_space c" and l0: "\<not> is_space l0" "l0 \<noteq> hd l5"
    and l2: "\<forall>x\<in>set l2. \<not> is_space x" and l5: "l5 \<noteq> []" "\<forall>x\<in>set l5. \<not> is_space x"
    and b: "\<exists>x\<in>set b. \<not> is_space x"
    and none: "match_here [Plus Space, Lit l2, Plus NonSpace, Plus Space, Lit l5] (b @ [c]) = None"
  shows "match_here [Plus Space, Lit l2, Plus NonSpace, Plus Space, Lit l5] (b @ c # l0 # r) = None"
proof (rule ccontr)
  let ?p = "[Plus Space, Lit l2, Plus NonSpace, Plus Space, Lit l5]"
  let ?text = "b @ c # l0 # r"
  assume "match_here ?p ?text \<noteq> None"
  then obtain ts where ts: "list_all2 atom_ok ?p ts" and pre: "prefix (concat ts) ?text"
    using match_here_SomeD by blast
  from ts obtain t1 t3 t4 where tsd: "ts = [t1, l2, t3, t4, l5]"
    and t1: "\<forall>x\<in>set t1. is_space x" and t3: "\<forall>x\<in>set t3. \<not> is_space x"
    and t4: "\<forall>x\<in>set t4. is_space x"
    by (auto simp: list_all2_Cons1)
  define u where "u = l2 @ t3"
  define v where "v = t4 @ l5"
  define x where "x = u @ v"
  define m where "m = t1 @ x"
  have m: "prefix m ?text"
    using pre by (simp add: tsd m_def x_def v_def u_def)
  have u: "\<forall>y\<in>set u. \<not> is_space y"
    using l2 t3 by (auto simp: u_def)
  have "\<not> length m \<le> length (b @ [c])"
  proof
    assume "length m \<le> length (b @ [c])"
    with m have "prefix m (b @ [c])"
      using prefix_shorter [of m "b @ [c]" "l0 # r"] by simp
    then have "prefix (concat ts) (b @ [c])"
      by (simp add: tsd m_def x_def v_def u_def)
    with ts none show False
      using match_here_SomeI by blast
  qed
  then have long: "length b + 1 < length m"
    by simp
  have at_c: "m ! length b = c"
    using prefix_nth [OF m, of "length b"] long by (simp add: nth_append)
  have at_l: "m ! (length b + 1) = l0"
    using prefix_nth [OF m, of "length b + 1"] long by (simp add: nth_append)
  from b obtain k where k: "k < length b" "\<not> is_space (b ! k)"
    by (metis in_set_conv_nth)
  have "length t1 \<le> k"
  proof (rule ccontr)
    assume "\<not> length t1 \<le> k"
    then have "k < length t1" by simp
    then have "m ! k = t1 ! k" "t1 ! k \<in> set t1"
      by (simp_all add: m_def nth_append)
    moreover have "m ! k = b ! k"
      using prefix_nth [OF m, of k] k(1) long by (simp add: nth_append)
    ultimately show False
      using t1 k(2) by metis
  qed
  with k(1) have t1b: "length t1 \<le> length b"
    by simp
  define j where "j = length b - length t1"
  have j: "length b = length t1 + j"
    using t1b by (simp add: j_def)
  have mj: "m ! length b = x ! j" "m ! (length b + 1) = x ! (j + 1)"
    unfolding j m_def by (simp_all add: nth_append)
  have jlen: "j + 1 < length x"
    using long unfolding j m_def by simp
  show False
  proof (cases "j < length u")
    case True
    then have "x ! j \<in> set u"
      by (simp add: x_def nth_append)
    with u mj(1) at_c c show False
      by metis
  next
    case False
    define i where "i = j - length u"
    have i: "j = length u + i"
      using False by (simp add: i_def)
    have mi: "x ! j = v ! i" "x ! (j + 1) = v ! (i + 1)"
      unfolding i x_def by (simp_all add: nth_append)
    have ilen: "i + 1 < length v"
      using jlen unfolding i x_def by simp
    show False
    proof (cases "i < length t4")
      case False
      then have "v ! i \<in> set l5"
        using ilen by (simp add: v_def nth_append)
      with l5(2) mj(1) mi(1) at_c c show False
        by metis
    next
      case True
      show False
      proof (cases "i + 1 < length t4")
        case True
        then have "v ! (i + 1) \<in> set t4"
          by (simp add: v_def nth_append)
        with t4 mj(2) mi(2) at_l l0(1) show False
          by metis
      next
        case False
        with True have "i + 1 = length t4"
          by simp
        then have "v ! (i + 1) = hd l5"
          using l5(1) by (simp add: v_def nth_append hd_conv_nth)
        with mj(2) mi(2) at_l l0(2) show False
          by metis
      qed
    qed
  qed
qed

text \<open>The search over a listing that holds the line after a whitespace character, when the
  pattern has no match before the line: the match starts in the whitespace before the line and
  ends after the ABI tag.\<close>

lemma ldconfig_search_from:
  assumes "is_space c"
    and "search_from (ldconfig_expr ''m'' ''libc6,x86-64'') (pre @ [c]) j0 = None"
  shows "\<exists>i k. search_from (ldconfig_expr ''m'' ''libc6,x86-64'')
                 (pre @ c # libm_line @ CHR 0x0A # post) j = Some (j + i, [k, 5, 4, 1, 13])
               \<and> i + k = Suc (length pre) \<and> i \<le> length pre
               \<and> (\<forall>x\<in>set (drop i pre). is_space x)"
  using assms(2)
proof (induction pre arbitrary: j j0)
  case Nil
  have "match_here (ldconfig_expr ''m'' ''libc6,x86-64'') ([c] @ libm_line @ CHR 0x0A # post)
          = Some [length [c], 5, 4, 1, 13]"
    using assms(1) by (intro ldconfig_match_at_line) simp_all
  then show ?case
    by (intro exI [of _ 0] exI [of _ 1]) simp
next
  case (Cons x pre)
  let ?text = "(x # pre) @ c # libm_line @ CHR 0x0A # post"
  show ?case
  proof (cases "\<forall>y\<in>set (x # pre). is_space y")
    case True
    then have "match_here (ldconfig_expr ''m'' ''libc6,x86-64'')
                 (((x # pre) @ [c]) @ libm_line @ CHR 0x0A # post)
               = Some [length ((x # pre) @ [c]), 5, 4, 1, 13]"
      using assms(1) by (intro ldconfig_match_at_line) simp_all
    then have "search_from (ldconfig_expr ''m'' ''libc6,x86-64'') ?text j
                 = Some (j + 0, [Suc (length (x # pre)), 5, 4, 1, 13])"
      by simp
    with True show ?thesis
      by (intro exI [of _ 0] exI [of _ "Suc (length (x # pre))"]) simp
  next
    case False
    from Cons.prems
    have none: "match_here (ldconfig_expr ''m'' ''libc6,x86-64'') ((x # pre) @ [c]) = None"
      and rest: "search_from (ldconfig_expr ''m'' ''libc6,x86-64'') (pre @ [c]) (Suc j0) = None"
      using search_from_NoneD [of _ x "pre @ [c]" j0] by simp_all
    have "match_here [Plus Space, Lit ''libm.'', Plus NonSpace, Plus Space, Lit ''(libc6,x86-64'']
            ((x # pre) @ c # CHR ''l'' # (tl libm_line @ CHR 0x0A # post)) = None"
    proof (rule match_before_line)
      show "is_space c" by fact
      show "\<exists>y\<in>set (x # pre). \<not> is_space y" using False by simp
      show "match_here [Plus Space, Lit ''libm.'', Plus NonSpace, Plus Space, Lit ''(libc6,x86-64'']
              ((x # pre) @ [c]) = None"
        using none by (simp only: ldconfig_expr_def append.simps)
    qed (simp_all add: is_space_def)
    moreover have "CHR ''l'' # (tl libm_line @ CHR 0x0A # post) = libm_line @ CHR 0x0A # post"
      by (simp add: libm_line_def)
    ultimately have "match_here (ldconfig_expr ''m'' ''libc6,x86-64'') ?text = None"
      by (simp only: ldconfig_expr_def append.simps)
    then have step: "search_from (ldconfig_expr ''m'' ''libc6,x86-64'') ?text j
             = search_from (ldconfig_expr ''m'' ''libc6,x86-64'')
                 (pre @ c # libm_line @ CHR 0x0A # post) (Suc j)"
      by simp
    from Cons.IH [OF rest, of "Suc j"] obtain i k where
      "search_from (ldconfig_expr ''m'' ''libc6,x86-64'')
         (pre @ c # libm_line @ CHR 0x0A # post) (Suc j) = Some (Suc j + i, [k, 5, 4, 1, 13])"
      "i + k = Suc (length pre)" "i \<le> length pre" "\<forall>x\<in>set (drop i pre). is_space x"
      by blast
    with step show ?thesis
      by (intro exI [of _ "Suc i"] exI [of _ k]) simp
  qed
qed

lemma libm_line_length: "length libm_line = 81"
  by (simp add: libm_line_def)

lemma libm_line_eol:
  "str_find (pre @ c # libm_line @ CHR 0x0A # post) CHR 0x0A (length pre + 24)
     = int (length pre + 82)"
proof -
  have "drop (length pre + 24) (pre @ c # libm_line @ CHR 0x0A # post)
          = drop 23 libm_line @ CHR 0x0A # post"
    by (simp add: libm_line_length)
  moreover have "CHR 0x0A \<notin> set (drop 23 libm_line)"
    by (simp add: libm_line_def)
  moreover have "length (drop 23 libm_line) = 58"
    by (simp add: libm_line_length)
  ultimately show ?thesis
    by (simp add: str_find_def find_from_append)
qed

lemma strip_line:
  assumes "\<forall>x\<in>set ws. is_space x"
  shows "strip (ws @ libm_line) = libm_line"
proof -
  have "dropWhile is_space (ws @ libm_line) = dropWhile is_space libm_line"
    using assms by simp
  also have "\<dots> = libm_line"
    by (simp add: libm_line_def is_space_def)
  finally show ?thesis
    by (simp add: strip_def) (simp add: libm_line_def is_space_def)
qed

lemma libm_line_path: "strip (last (str_split ''=>'' libm_line)) = libm_path"
  by (simp add: libm_line_def libm_path_def str_split_def strip_def is_space_def)

lemma normpath_libm_path: "normpath libm_path = libm_path"
  by (simp add: libm_path_def normpath_def str_split_def norm_step_def)

lemma take_line:
  assumes "i \<le> length pre"
  shows "take (length pre + 82 - i) (drop i (pre @ c # libm_line @ CHR 0x0A # post))
           = (drop i pre @ [c]) @ libm_line"
proof -
  define A where "A = drop i pre @ c # libm_line"
  have n: "length pre + 82 - i = length A"
    using assms by (simp add: A_def libm_line_length)
  have d: "drop i (pre @ c # libm_line @ CHR 0x0A # post) = A @ CHR 0x0A # post"
    using assms by (simp add: A_def)
  show ?thesis
    unfolding n d by (simp add: A_def)
qed

lemma ldconfig_line_found:
  assumes "is_space c"
    and "search (ldconfig_expr ''m'' ''libc6,x86-64'') (pre @ [c]) = None"
  shows "\<exists>m. search (ldconfig_expr ''m'' ''libc6,x86-64'') (pre @ c # libm_line @ CHR 0x0A # post)
               = Some m
           \<and> strip (last (str_split ''=>''
                (strip (slice (pre @ c # libm_line @ CHR 0x0A # post) (match_start m)
                   (str_find (pre @ c # libm_line @ CHR 0x0A # post) CHR 0x0A (match_end m))))))
             = libm_path"
proof -
  let ?text = "pre @ c # libm_line @ CHR 0x0A # post"
  from ldconfig_search_from [OF assms(1) assms(2) [unfolded search_def], of post 0] obtain i k where
    s: "search (ldconfig_expr ''m'' ''libc6,x86-64'') ?text = Some (i, [k, 5, 4, 1, 13])"
    and ik: "i + k = Suc (length pre)" and i: "i \<le> length pre"
    and ws: "\<forall>x\<in>set (drop i pre). is_space x"
    by (auto simp: search_def)
  define m :: rmatch where "m = (i, [k, 5, 4, 1, 13])"
  have st: "match_start m = i"
    by (simp add: m_def match_start_def)
  have e: "match_end m = length pre + 24"
    using ik by (simp add: m_def match_end_def)
  have eol: "str_find ?text CHR 0x0A (match_end m) = int (length pre + 82)"
    unfolding e by (rule libm_line_eol)
  have "slice ?text i (int (length pre + 82)) = take (length pre + 82 - i) (drop i ?text)"
    by (rule slice_nat) (simp add: libm_line_length)
  also have "\<dots> = (drop i pre @ [c]) @ libm_line"
    using i by (rule take_line)
  finally have "slice ?text i (int (length pre + 82)) = (drop i pre @ [c]) @ libm_line" .
  moreover have "\<forall>x\<in>set (drop i pre @ [c]). is_space x"
    using ws assms(1) by simp
  ultimately have "strip (slice ?text i (int (length pre + 82))) = libm_line"
    using strip_line by metis
  then have "strip (slice ?text (match_start m) (str_find ?text CHR 0x0A (match_end m)))
               = libm_line"
    unfolding st eol .
  then have "strip (last (str_split ''=>''
               (strip (slice ?text (match_start m) (str_find ?text CHR 0x0A (match_end m))))))
             = libm_path"
    by (simp only: libm_line_path)
  with s show ?thesis
    unfolding m_def by blast
qed

text \<open>When the line is the last one and no line break follows it, \<open>find\<close> answers
  \<open>-1\<close> and the slice \<open>ldconfig[start:-1]\<close> loses the last character of the
  path.\<close>

lemma ldconfig_last_line_truncated:
  "fst (ldconfig_search host_last_line ''m'' w0) = Inr (Some ''/lib/x86_64-linux-gnu/libm.so.'')"
  by code_simp

subsection \<open>The \<open>SONAME\<close> line\<close>

lemma soname_match_at:
  assumes "is_space c" and "ws \<noteq> []" and "\<forall>x\<in>set ws. is_space x"
    and "token \<noteq> []" and "\<forall>x\<in>set token. \<not> is_space x"
    and "rest = [] \<or> is_space (hd rest)"
  shows "match_here soname_expr (c # ''SONAME'' @ ws @ token @ rest)
           = Some [1, 6, length ws, length token]"
proof -
  have tok: "takeWhile (in_class NonSpace) (token @ rest) = token"
  proof (cases rest)
    case Nil
    with assms(5) show ?thesis by (simp add: in_class_NonSpace)
  next
    case (Cons y ys)
    with assms(6) have "is_space y" by simp
    with assms(5) Cons show ?thesis
      by (simp add: in_class_NonSpace)
  qed
  have t1: "match_here [Plus NonSpace] (token @ rest) = Some [length token]"
  proof (rule match_here_Plus_first)
    show "length token = length (takeWhile (in_class NonSpace) (token @ rest))"
      by (simp only: tok)
    show "1 \<le> length token"
      using assms(4) by (simp add: Suc_le_eq)
    show "match_here [] (drop (length token) (token @ rest)) = Some []"
      by simp
  qed
  have run: "takeWhile (in_class Space) (ws @ token @ rest) = ws"
    using assms(3,4,5) by (cases token) (simp_all add: in_class_Space)
  have t2: "match_here [Plus Space, Plus NonSpace] (ws @ token @ rest)
              = Some [length ws, length token]"
  proof (rule match_here_Plus_first)
    show "length ws = length (takeWhile (in_class Space) (ws @ token @ rest))"
      by (simp only: run)
    show "1 \<le> length ws"
      using assms(2) by (simp add: Suc_le_eq)
    show "match_here [Plus NonSpace] (drop (length ws) (ws @ token @ rest)) = Some [length token]"
      using t1 by simp
  qed
  have "match_here (One Space # Lit ''SONAME'' # [Plus Space, Plus NonSpace])
          (c # ''SONAME'' @ ws @ token @ rest)
        = map_option (\<lambda>r. 1 # length ''SONAME'' # r)
            (match_here [Plus Space, Plus NonSpace] (ws @ token @ rest))"
    using assms(1) by (subst match_here_One_Lit) simp
  then show ?thesis
    unfolding soname_expr_def t2 by simp
qed

lemma soname_no_match:
  assumes "\<not> sublist ''SONAME'' pre" and "is_space c"
  shows "match_here soname_expr (x # pre @ c # rest) = None"
proof -
  have "c \<notin> set ''SONAME''"
    using assms(2) by (auto simp: is_space_def)
  with assms(1) have "take (length ''SONAME'') (drop 0 (pre @ c # rest)) \<noteq> ''SONAME''"
    by (intro literal_overlap) simp_all
  then show ?thesis
    unfolding soname_expr_def by (subst match_here_One_Lit) simp
qed

lemma soname_search_from:
  assumes "is_space c" and "ws \<noteq> []" and "\<forall>x\<in>set ws. is_space x"
    and "token \<noteq> []" and "\<forall>x\<in>set token. \<not> is_space x"
    and "rest = [] \<or> is_space (hd rest)"
    and "\<not> sublist ''SONAME'' pre"
  shows "search_from soname_expr (pre @ c # ''SONAME'' @ ws @ token @ rest) j
           = Some (j + length pre, [1, 6, length ws, length token])"
  using assms(7)
proof (induction pre arbitrary: j)
  case Nil
  show ?case
    using soname_match_at [OF assms(1-6)] by simp
next
  case (Cons x pre)
  then have no: "\<not> sublist ''SONAME'' pre"
    by (simp add: sublist_Cons_right)
  then have "match_here soname_expr (x # pre @ c # ''SONAME'' @ ws @ token @ rest) = None"
    using assms(1) by (rule soname_no_match)
  then show ?case
    using Cons.IH [OF no, of "Suc j"] by simp
qed

lemma soname_search_none:
  assumes "\<not> sublist ''SONAME'' s"
  shows "search_from soname_expr s j = None"
  using assms
proof (induction s arbitrary: j)
  case Nil
  show ?case by (simp add: soname_expr_def)
next
  case (Cons x s)
  then have no: "\<not> sublist ''SONAME'' s"
    by (simp add: sublist_Cons_right)
  have "take (length ''SONAME'') s \<noteq> ''SONAME''"
  proof
    assume "take (length ''SONAME'') s = ''SONAME''"
    then have "sublist ''SONAME'' s"
      by (metis sublist_take)
    with no show False ..
  qed
  then have "match_here soname_expr (x # s) = None"
    unfolding soname_expr_def by (subst match_here_One_Lit) simp
  then show ?case
    using Cons.IH [OF no, of "Suc j"] by simp
qed

lemma soname_group:
  "match_span (length pre, [1, 6, length ws, length token]) 3 4
     (pre @ c # ''SONAME'' @ ws @ token @ rest) = token"
proof -
  define a where "a = pre @ c # ''SONAME'' @ ws"
  have "length pre + sum_list (take 3 [1, 6, length ws, length token]) = length a"
    by (simp add: a_def numeral_3_eq_3)
  moreover have "pre @ c # ''SONAME'' @ ws @ token @ rest = a @ token @ rest"
    by (simp add: a_def)
  moreover have "sum_list (take (4 - 3) (drop 3 [1, 6, length ws, length token])) = length token"
    by (simp add: numeral_3_eq_3)
  ultimately show ?thesis
    unfolding match_span_def fst_conv snd_conv
    by (simp only: take_drop_middle)
qed

subsection \<open>The hosts\<close>

lemma realpath_glibc_nonempty: "\<forall>q. realpath host_glibc q \<noteq> []"
  by (simp add: host_glibc_def libm_real_def abspath_def normpath_nonempty)

lemma realpath_hosts_nonempty:
  "\<forall>q. realpath host_cc q \<noteq> []" "\<forall>q. realpath host_empty q \<noteq> []"
  "\<forall>q. realpath host_local q \<noteq> []"
  using realpath_glibc_nonempty by (simp_all add: host_cc_def host_empty_def host_local_def)

lemma realpath_glibc_canonical:
  "\<forall>q. take 1 (realpath host_glibc q) = ''/'' \<and> normpath (realpath host_glibc q) = realpath host_glibc q
       \<and> realpath host_glibc (realpath host_glibc q) = realpath host_glibc q"
proof
  fix q
  define r where "r = realpath host_glibc q"
  have rp: "realpath host_glibc x = (if abspath ''/home/user'' x = libm_path then libm_real
                                      else abspath ''/home/user'' x)" for x
    by (simp add: host_glibc_def)
  have real: "take 1 libm_real = ''/''" "normpath libm_real = libm_real" "libm_real \<noteq> libm_path"
    by code_simp+
  have "take 1 (abspath ''/home/user'' q) = ''/''"
    by (rule abspath_absolute) simp
  with real(1) have 1: "take 1 r = ''/''"
    unfolding r_def rp by simp
  have 2: "normpath r = r"
    unfolding r_def rp using real(2) by (simp add: abspath_normal)
  have 3: "r \<noteq> libm_path"
    unfolding r_def rp using real(3) by simp
  have "abspath ''/home/user'' r = r"
    using 1 2 by (rule abspath_fixed)
  with 3 have "realpath host_glibc r = r"
    by (simp add: rp)
  with 1 2 show "take 1 (realpath host_glibc q) = ''/''
       \<and> normpath (realpath host_glibc q) = realpath host_glibc q
       \<and> realpath host_glibc (realpath host_glibc q) = realpath host_glibc q"
    unfolding r_def by simp
qed

lemma ldconfig_glibc: "ldconfig_search host_glibc ''m'' w0
         = (Inr (Some libm_real),
            \<lparr>events = [Which ''ldconfig'', Spawn [''/sbin/ldconfig'', ''-p'']], open_tmp = [], tmp_paths = []\<rparr>)"
  by code_simp

section \<open>The claims\<close>

subsection \<open>C1: the cascade\<close>

text \<open>Claim C1. \<open>find_library\<close> tries \<open>_ldconfig_search\<close>, then \<open>_gcc_search\<close>,
  then \<open>_local_search\<close>, each from the state the one before left, and returns the first
  result that is not absent. When \<open>_ldconfig_search\<close> returns a path,
  \<open>find_library\<close> returns that path in the state \<open>_ldconfig_search\<close> left: nothing
  happened after it, in particular no lookup of \<open>cc\<close> or \<open>gcc\<close> and no
  \<open>getcwd\<close>, one of which every call of \<open>_gcc_search\<close> and of
  \<open>_local_search\<close> begins with (the last two conjuncts). When all three return absent,
  so does \<open>find_library\<close>. The host's \<open>realpath\<close> is assumed never to return the
  empty string, which Python would take for false.\<close>

theorem find_library_cascade:
  assumes "\<forall>q. realpath h q \<noteq> []"
  shows
    "(ldconfig_search h library w = (Inr (Some p), w1) \<longrightarrow>
        find_library h library w = (Inr (Some p), w1)
        \<and> Which ''cc'' \<notin> set (since w w1) \<and> Which ''gcc'' \<notin> set (since w w1)
        \<and> Getcwd \<notin> set (since w w1))
     \<and> (ldconfig_search h library w = (Inr None, w1)
          \<and> gcc_search h library w1 = (Inr (Some p), w2) \<longrightarrow>
        find_library h library w = (Inr (Some p), w2) \<and> Getcwd \<notin> set (since w1 w2))
     \<and> (ldconfig_search h library w = (Inr None, w1)
          \<and> gcc_search h library w1 = (Inr None, w2) \<longrightarrow>
        find_library h library w = local_search h library w2)
     \<and> (ldconfig_search h library w = (Inr None, w1)
          \<and> gcc_search h library w1 = (Inr None, w2)
          \<and> local_search h library w2 = (Inr None, w3) \<longrightarrow>
        find_library h library w = (Inr None, w3))
     \<and> Which ''cc'' \<in> set (since w (snd (gcc_search h library w)))
     \<and> Getcwd \<in> set (since w (snd (local_search h library w)))"
proof -
  have nonempty: "p' \<noteq> []" if "\<exists>q. p' = final_path h q" for p'
    using that assms by (auto simp: final_path_def)
  have a: "find_library h library w = (Inr (Some p), w1)
           \<and> Which ''cc'' \<notin> set (since w w1) \<and> Which ''gcc'' \<notin> set (since w w1)
           \<and> Getcwd \<notin> set (since w w1)"
    if l: "ldconfig_search h library w = (Inr (Some p), w1)"
  proof -
    have "p \<noteq> []"
      using l by (intro nonempty ldconfig_search_result [of h library w]) simp
    then have "find_library h library w = (Inr (Some p), w1)"
      using l by (simp add: find_library_def)
    moreover have "set (since w w1) \<subseteq> insert (Which ''ldconfig'') (range Spawn)"
      using ldconfig_search_since [of w h library] l by simp
    ultimately show ?thesis
      by auto
  qed
  have b: "find_library h library w = (Inr (Some p), w2) \<and> Getcwd \<notin> set (since w1 w2)"
    if l: "ldconfig_search h library w = (Inr None, w1)"
      and g: "gcc_search h library w1 = (Inr (Some p), w2)"
  proof -
    have "p \<noteq> []"
      using g by (intro nonempty gcc_search_result [of h library w1]) simp
    then have "find_library h library w = (Inr (Some p), w2)"
      using l g by (simp add: find_library_def)
    moreover have "Getcwd \<notin> set (since w1 w2)"
      using gcc_search_since [of w1 h library] g by auto
    ultimately show ?thesis ..
  qed
  have c: "find_library h library w = local_search h library w2"
    if "ldconfig_search h library w = (Inr None, w1)"
      and "gcc_search h library w1 = (Inr None, w2)"
    using that by (simp add: find_library_def)
  show ?thesis
    using a b c gcc_search_since_cc local_search_since_cwd by simp
qed

theorem find_library_cascade_witness:
  "(\<forall>q. realpath host_glibc q \<noteq> [])
   \<and> find_library host_glibc ''m'' w0
       = (Inr (Some libm_real),
          \<lparr>events = [Which ''ldconfig'', Spawn [''/sbin/ldconfig'', ''-p'']], open_tmp = [], tmp_paths = []\<rparr>)
   \<and> Which ''cc'' \<notin> set (since w0
          \<lparr>events = [Which ''ldconfig'', Spawn [''/sbin/ldconfig'', ''-p'']], open_tmp = [], tmp_paths = []\<rparr>)
   \<and> fst (find_library host_cc ''m'' w0) = Inr (Some libm_real)
   \<and> Getcwd \<notin> set (events (snd (find_library host_cc ''m'' w0)))
   \<and> fst (find_library host_local ''foo'' w0) = Inr (Some ''/home/user/libfoo.so.1'')
   \<and> fst (find_library host_empty ''m'' w0) = Inr None"
proof -
  let ?w1 = "\<lparr>events = [Which ''ldconfig''], open_tmp = [], tmp_paths = []\<rparr>"
  let ?w2 = "\<lparr>events = [Which ''ldconfig'', Which ''cc'', TmpOpen ''/tmp/tmpq3f8z1'',
                Spawn [''/usr/bin/cc'', ''-Wl,-t'', ''-o'', ''/tmp/tmpq3f8z1'', ''-lm''],
                TmpClose ''/tmp/tmpq3f8z1''], open_tmp = [], tmp_paths = []\<rparr>"
  let ?w3 = "\<lparr>events = [Which ''ldconfig'', Which ''cc'', Which ''gcc''], open_tmp = [], tmp_paths = []\<rparr>"
  let ?w4 = "\<lparr>events = [Which ''ldconfig'', Which ''cc'', Which ''gcc'', Getcwd,
                Glob ''/home/user/libm.so*''], open_tmp = [], tmp_paths = []\<rparr>"
  have cc: "ldconfig_search host_cc ''m'' w0 = (Inr None, ?w1)"
    "gcc_search host_cc ''m'' ?w1 = (Inr (Some libm_real), ?w2)"
    by code_simp+
  have local: "ldconfig_search host_local ''foo'' w0 = (Inr None, ?w1)"
    "gcc_search host_local ''foo'' ?w1 = (Inr None, ?w3)"
    "fst (local_search host_local ''foo'' ?w3) = Inr (Some ''/home/user/libfoo.so.1'')"
    by code_simp+
  have empty: "ldconfig_search host_empty ''m'' w0 = (Inr None, ?w1)"
    "gcc_search host_empty ''m'' ?w1 = (Inr None, ?w3)"
    "local_search host_empty ''m'' ?w3 = (Inr None, ?w4)"
    by code_simp+
  have a: "find_library host_glibc ''m'' w0
       = (Inr (Some libm_real),
          \<lparr>events = [Which ''ldconfig'', Spawn [''/sbin/ldconfig'', ''-p'']], open_tmp = [], tmp_paths = []\<rparr>)
   \<and> Which ''cc'' \<notin> set (since w0
          \<lparr>events = [Which ''ldconfig'', Spawn [''/sbin/ldconfig'', ''-p'']], open_tmp = [], tmp_paths = []\<rparr>)"
    using find_library_cascade [OF realpath_glibc_nonempty, of "''m''" w0 libm_real
      "\<lparr>events = [Which ''ldconfig'', Spawn [''/sbin/ldconfig'', ''-p'']], open_tmp = [], tmp_paths = []\<rparr>"]
      ldconfig_glibc
    by blast
  have b: "find_library host_cc ''m'' w0 = (Inr (Some libm_real), ?w2)"
    using find_library_cascade [OF realpath_hosts_nonempty(1), of "''m''" w0 libm_real ?w1 ?w2] cc
    by blast
  have c: "find_library host_local ''foo'' w0 = local_search host_local ''foo'' ?w3"
    using find_library_cascade [OF realpath_hosts_nonempty(3), of "''foo''" w0 _ ?w1 ?w3] local(1,2)
    by blast
  have d: "find_library host_empty ''m'' w0 = (Inr None, ?w4)"
    using find_library_cascade [OF realpath_hosts_nonempty(2), of "''m''" w0 _ ?w1 ?w3 ?w4] empty
    by blast
  show ?thesis
    using a realpath_glibc_nonempty by (simp add: b c d local(3))
qed

subsection \<open>C2: names that hold a quote\<close>

text \<open>Claim C2. On a host with a C compiler, no \<open>ldconfig\<close> and no matching file, the
  name \<open>a"b\<close> makes \<open>_gcc_search\<close> build the command
  \<open>/usr/bin/cc -Wl,-t -o "/tmp/tmpq3f8z1" -l"a"b"\<close>, which \<open>shlex.split\<close> refuses
  ("No closing quotation"): \<open>find_library\<close> raises \<open>ValueError\<close> where the claim
  promises absent.\<close>

theorem find_library_quote_raises:
  "fst (ldconfig_search host_cc (''a'' @ [CHR 0x22] @ ''b'') w0) = Inr None
   \<and> fst (local_search host_cc (''a'' @ [CHR 0x22] @ ''b'') w0) = Inr None
   \<and> fst (find_library host_cc (''a'' @ [CHR 0x22] @ ''b'') w0) = Inl ValueError"
  by code_simp

subsection \<open>C3: a tool that cannot be spawned\<close>

text \<open>Claim C3. The claim says that a failure to spawn the tool is propagated. On a host where
  \<open>Popen\<close> raises \<open>PermissionError\<close> (\<open>errno\<close> 13), \<open>soname\<close> and
  \<open>_ldconfig_search\<close> return absent.\<close>

theorem spawn_failure_absent:
  "popen host_noexec [''objdump'', ''-x'', ''-j'', ''.dynamic'', libm_real] = Raises_OSError 13
   \<and> fst (soname host_noexec libm_real w0) = Inr None
   \<and> fst (ldconfig_search host_noexec ''m'' w0) = Inr None"
  by code_simp

text \<open>Claim C3, amended. An \<open>OSError\<close> raised by spawning is caught by \<open>_execute\<close>
  whatever its \<open>errno\<close> and becomes absent: \<open>_execute\<close> and \<open>soname\<close> never
  raise \<open>OSError\<close>, and when its tool cannot be spawned \<open>_ldconfig_search\<close>
  returns absent, \<open>soname\<close> returns absent, and \<open>_gcc_search\<close> returns absent
  provided that the temporary file is made and then removed, or found removed.\<close>

theorem execute_swallows_oserror:
  "(shsplit command = Inr argv \<and> popen h argv = Raises_OSError n \<longrightarrow>
      fst (execute h command w) = Inr None)
   \<and> fst (execute h command w) \<noteq> Inl (OSError n)
   \<and> fst (soname h library_path w) \<noteq> Inl (OSError n)
   \<and> (find_executable h ''ldconfig'' = Some executable
        \<and> shsplit (executable @ '' -p'') = Inr argv \<and> popen h argv = Raises_OSError n \<longrightarrow>
      fst (ldconfig_search h library w) = Inr None)
   \<and> (linker_of h = Some l \<and> mktemp h = Inr name
        \<and> (tmp_exit h name = None \<or> tmp_exit h name = Some ENOENT)
        \<and> shsplit (gcc_command l name library) = Inr argv
        \<and> popen h argv = Raises_OSError n \<longrightarrow>
      fst (gcc_search h library w) = Inr None)
   \<and> (isfile h library_path \<and> shsplit (objdump_command library_path) = Inr argv
        \<and> popen h argv = Raises_OSError n \<longrightarrow>
      fst (soname h library_path w) = Inr None)"
proof -
  have "fst (execute h c v) \<noteq> Inl (OSError n)" for c v
    using execute_exn [of h c v "OSError n"] by auto
  note ex = this
  have so: "fst (soname h library_path w) \<noteq> Inl (OSError n)"
    by (auto simp: soname_def dest: execute_exn_pair split: option.splits sum.splits prod.splits)
  have ld: "fst (ldconfig_search h library w) = Inr None"
    if "find_executable h ''ldconfig'' = Some executable"
      and "shsplit (executable @ '' -p'') = Inr argv" and "popen h argv = Raises_OSError n"
    using that by (simp add: ldconfig_search_def Let_def execute_cases)
  have gc: "fst (gcc_search h library w) = Inr None"
    if "linker_of h = Some l" and "mktemp h = Inr name"
      and "tmp_exit h name = None \<or> tmp_exit h name = Some ENOENT"
      and "shsplit (gcc_command l name library) = Inr argv" and "popen h argv = Raises_OSError n"
    using that(1) gcc_trace_spawn_error [OF that(2-5)] by (simp add: gcc_search_fst)
  have sp: "fst (soname h library_path w) = Inr None"
    if "isfile h library_path" and "shsplit (objdump_command library_path) = Inr argv"
      and "popen h argv = Raises_OSError n"
    using that by (simp add: soname_def objdump_command_def execute_cases)
  from ex so ld gc sp show ?thesis
    by (simp add: execute_cases)
qed

theorem execute_swallows_oserror_witness:
  "shsplit ''/sbin/ldconfig -p'' = Inr [''/sbin/ldconfig'', ''-p'']
   \<and> popen host_noexec [''/sbin/ldconfig'', ''-p''] = Raises_OSError 13
   \<and> fst (execute host_noexec ''/sbin/ldconfig -p'' w0) = Inr None
   \<and> find_executable host_noexec ''ldconfig'' = Some ''/sbin/ldconfig''
   \<and> fst (ldconfig_search host_noexec ''m'' w0) = Inr None
   \<and> linker_of host_noexec = Some ''/usr/bin/cc''
   \<and> mktemp host_noexec = Inr ''/tmp/tmpq3f8z1''
   \<and> tmp_exit host_noexec ''/tmp/tmpq3f8z1'' = Some ENOENT
   \<and> shsplit (gcc_command ''/usr/bin/cc'' ''/tmp/tmpq3f8z1'' ''m'')
       = Inr [''/usr/bin/cc'', ''-Wl,-t'', ''-o'', ''/tmp/tmpq3f8z1'', ''-lm'']
   \<and> popen host_noexec [''/usr/bin/cc'', ''-Wl,-t'', ''-o'', ''/tmp/tmpq3f8z1'', ''-lm'']
       = Raises_OSError 13
   \<and> fst (gcc_search host_noexec ''m'' w0) = Inr None
   \<and> isfile host_noexec libm_real
   \<and> shsplit (objdump_command libm_real) = Inr [''objdump'', ''-x'', ''-j'', ''.dynamic'', libm_real]
   \<and> popen host_noexec [''objdump'', ''-x'', ''-j'', ''.dynamic'', libm_real] = Raises_OSError 13
   \<and> fst (soname host_noexec libm_real w0) = Inr None"
proof -
  have 1: "shsplit ''/sbin/ldconfig -p'' = Inr [''/sbin/ldconfig'', ''-p'']"
    "shsplit (''/sbin/ldconfig'' @ '' -p'') = Inr [''/sbin/ldconfig'', ''-p'']"
    "shsplit (gcc_command ''/usr/bin/cc'' ''/tmp/tmpq3f8z1'' ''m'')
       = Inr [''/usr/bin/cc'', ''-Wl,-t'', ''-o'', ''/tmp/tmpq3f8z1'', ''-lm'']"
    "shsplit (objdump_command libm_real) = Inr [''objdump'', ''-x'', ''-j'', ''.dynamic'', libm_real]"
    by code_simp+
  have 2: "popen host_noexec argv = Raises_OSError 13" for argv
    by (simp add: host_noexec_def)
  have 3: "find_executable host_noexec ''ldconfig'' = Some ''/sbin/ldconfig''"
    "mktemp host_noexec = Inr ''/tmp/tmpq3f8z1''"
    "tmp_exit host_noexec ''/tmp/tmpq3f8z1'' = Some ENOENT"
    "isfile host_noexec libm_real"
    by (simp_all add: host_noexec_def host_glibc_def)
  have 4: "linker_of host_noexec = Some ''/usr/bin/cc''"
    by code_simp
  from execute_swallows_oserror [where h = host_noexec and n = 13 and w = w0
      and command = "''/sbin/ldconfig -p''" and argv = "[''/sbin/ldconfig'', ''-p'']"
      and executable = "''/sbin/ldconfig''" and library = "''m''"] 1 2 3
  have a: "fst (execute host_noexec ''/sbin/ldconfig -p'' w0) = Inr None"
    "fst (ldconfig_search host_noexec ''m'' w0) = Inr None"
    by simp_all
  from execute_swallows_oserror [where h = host_noexec and n = 13 and w = w0
      and l = "''/usr/bin/cc''" and name = "''/tmp/tmpq3f8z1''" and library = "''m''"
      and argv = "[''/usr/bin/cc'', ''-Wl,-t'', ''-o'', ''/tmp/tmpq3f8z1'', ''-lm'']"] 1 2 3 4
  have b: "fst (gcc_search host_noexec ''m'' w0) = Inr None"
    by simp
  from execute_swallows_oserror [where h = host_noexec and n = 13 and w = w0
      and library_path = libm_real
      and argv = "[''objdump'', ''-x'', ''-j'', ''.dynamic'', libm_real]"] 1 2 3
  have c: "fst (soname host_noexec libm_real w0) = Inr None"
    by simp
  from a b c 1 2 3 4 show ?thesis
    by simp
qed

subsection \<open>C4: the ABI tag\<close>

text \<open>Claim C4. \<open>_abi_type\<close> is a function of the machine name and of
  \<open>calcsize('l')\<close> alone: the lookup of the pair (machine, \<open>'32'\<close> when the size is
  4 and \<open>'64'\<close> otherwise) in a table of five pairs, with \<open>libc6\<close> for every other
  pair.\<close>

theorem abi_type_table:
  "abi_type h = abi_lookup (uname_machine h) (if calcsize_l h = 4 then ''32'' else ''64'')
   \<and> abi_lookup ''x86_64'' ''64'' = ''libc6,x86-64''
   \<and> abi_lookup ''ppc64'' ''64'' = ''libc6,64bit''
   \<and> abi_lookup ''sparc64'' ''64'' = ''libc6,64bit''
   \<and> abi_lookup ''s390x'' ''64'' = ''libc6,64bit''
   \<and> abi_lookup ''ia64'' ''64'' = ''libc6,IA-64''
   \<and> ((machine, arch) \<notin> {(''x86_64'', ''64''), (''ppc64'', ''64''), (''sparc64'', ''64''),
                           (''s390x'', ''64''), (''ia64'', ''64'')}
        \<longrightarrow> abi_lookup machine arch = ''libc6'')"
  by (simp add: abi_type_def abi_lookup_def abi_map_def)

theorem abi_type_table_witness:
  "(''armv7l'', ''32'') \<notin> {(''x86_64'', ''64''), (''ppc64'', ''64''), (''sparc64'', ''64''),
                             (''s390x'', ''64''), (''ia64'', ''64'')}
   \<and> abi_lookup ''armv7l'' ''32'' = ''libc6''
   \<and> abi_type host_glibc = ''libc6,x86-64''"
proof -
  have "(''armv7l'', ''32'') \<notin> {(''x86_64'', ''64''), (''ppc64'', ''64''), (''sparc64'', ''64''),
                             (''s390x'', ''64''), (''ia64'', ''64'')}"
    by simp
  moreover have "abi_lookup (uname_machine host_glibc) (if calcsize_l host_glibc = 4 then ''32'' else ''64'')
     = ''libc6,x86-64''"
    using abi_type_table [of host_glibc] by (simp add: host_glibc_def)
  ultimately show ?thesis
    using abi_type_table [of host_glibc "''armv7l''" "''32''"] by simp
qed

subsection \<open>C5: the registry line\<close>

text \<open>Claim C5. The claim is stated for every listing that contains the line. When the listing
  is the line alone, nothing stands before \<open>libm.so.6\<close> for \<open>\s+\<close> to match,
  and \<open>_ldconfig_search\<close> returns absent.\<close>

theorem ldconfig_bare_line_unmatched:
  "abi_type host_bare_line = ''libc6,x86-64''
   \<and> popen host_bare_line [''/sbin/ldconfig'', ''-p''] = Stdout libm_line
   \<and> fst (ldconfig_search host_bare_line ''m'' w0) = Inr None"
  by code_simp

text \<open>Claim C5, amended. When the listing holds the line after a whitespace character (as
  \<open>ldconfig -p\<close> prints it, after a tab) and before a line break, and the pattern
  has no match in the listing up to that whitespace character (the first match wins),
  \<open>_ldconfig_search\<close> with the ABI tag \<open>libc6,x86-64\<close> and the name
  \<open>m\<close> returns \<open>realpath\<close> of \<open>/lib/x86_64-linux-gnu/libm.so.6\<close>,
  a path that \<open>normpath\<close> leaves as it is. In the listing of the witness the entry of
  the 32-bit library stands before the line and is passed over for its ABI tag.\<close>

theorem ldconfig_search_libm:
  assumes "find_executable h ''ldconfig'' = Some executable"
    and "shsplit (executable @ '' -p'') = Inr argv"
    and "popen h argv = Stdout (pre @ c # libm_line @ CHR 0x0A # post)"
    and "abi_type h = ''libc6,x86-64''"
    and "is_space c"
    and "search (ldconfig_expr ''m'' ''libc6,x86-64'') (pre @ [c]) = None"
  shows "fst (ldconfig_search h ''m'' w) = Inr (Some (realpath h libm_path))"
proof -
  let ?text = "pre @ c # libm_line @ CHR 0x0A # post"
  have "execute h (executable @ '' -p'') (emit (Which ''ldconfig'') w)
          = (Inr (Some ?text), emit (Spawn argv) (emit (Which ''ldconfig'') w))"
    using assms(2,3) by (simp add: execute_cases)
  moreover obtain m where "search (ldconfig_expr ''m'' ''libc6,x86-64'') ?text = Some m"
    and "strip (last (str_split ''=>''
           (strip (slice ?text (match_start m) (str_find ?text CHR 0x0A (match_end m))))))
         = libm_path"
    using ldconfig_line_found [OF assms(5,6)] by blast
  ultimately show ?thesis
    using assms(1,4)
    by (simp add: ldconfig_search_def Let_def final_path_def normpath_libm_path)
qed

theorem ldconfig_search_libm_witness:
  "find_executable host_glibc ''ldconfig'' = Some ''/sbin/ldconfig''
   \<and> popen host_glibc [''/sbin/ldconfig'', ''-p''] = Stdout ldconfig_listing
   \<and> search (ldconfig_expr ''m'' ''libc6,x86-64'') (ldconfig_before @ [CHR 0x09]) = None
   \<and> fst (ldconfig_search host_glibc ''m'' w0) = Inr (Some libm_real)"
proof -
  let ?post = "[CHR 0x09] @ ''libc.so.6 (libc6,x86-64) => /lib/x86_64-linux-gnu/libc.so.6'' @ [CHR 0x0A]"
  have 1: "find_executable host_glibc ''ldconfig'' = Some ''/sbin/ldconfig''"
    by (simp add: host_glibc_def)
  have 2: "shsplit (''/sbin/ldconfig'' @ '' -p'') = Inr [''/sbin/ldconfig'', ''-p'']"
    by code_simp
  have 3: "popen host_glibc [''/sbin/ldconfig'', ''-p'']
             = Stdout (ldconfig_before @ CHR 0x09 # libm_line @ CHR 0x0A # ?post)"
    by (simp add: host_glibc_def ldconfig_listing_def)
  have 4: "abi_type host_glibc = ''libc6,x86-64''"
    by code_simp
  have 5: "is_space CHR 0x09"
    by (simp add: is_space_def)
  have 6: "search (ldconfig_expr ''m'' ''libc6,x86-64'') (ldconfig_before @ [CHR 0x09]) = None"
    by code_simp
  have 7: "realpath host_glibc libm_path = libm_real"
    by code_simp
  from ldconfig_search_libm [OF 1 2 3 4 5 6, of w0] 1 3 6 7
  show ?thesis
    by (simp add: ldconfig_listing_def)
qed

subsection \<open>C6: the precondition of \<open>soname\<close>\<close>

text \<open>Claim C6. On a path that is not a regular file \<open>soname\<close> raises
  \<open>AssertionError\<close> and does nothing else, which is not the result absent; on a regular
  file it never raises \<open>AssertionError\<close>.\<close>

theorem soname_precondition:
  "(\<not> isfile h library_path \<longrightarrow>
      soname h library_path w = (Inl AssertionError, w)
      \<and> fst (soname h library_path w) \<noteq> Inr None)
   \<and> (isfile h library_path \<longrightarrow> fst (soname h library_path w) \<noteq> Inl AssertionError)"
  by (auto simp: soname_def dest: execute_exn_pair split: option.splits sum.splits prod.splits)

theorem soname_precondition_witness:
  "\<not> isfile host_glibc libm_path
   \<and> soname host_glibc libm_path w0 = (Inl AssertionError, w0)
   \<and> isfile host_glibc libm_real
   \<and> fst (soname host_glibc libm_real w0) \<noteq> Inl AssertionError"
proof -
  have 1: "\<not> isfile host_glibc libm_path"
    by (simp add: host_glibc_def libm_path_def libm_real_def)
  have 2: "isfile host_glibc libm_real"
    by (simp add: host_glibc_def)
  from soname_precondition [of host_glibc libm_path w0]
    soname_precondition [of host_glibc libm_real w0] 1 2
  show ?thesis by blast
qed

subsection \<open>C7: the result of \<open>soname\<close>\<close>

text \<open>Claim C7. The claim is stated for every regular file and every dump that holds a
  \<open>SONAME\<close> line. When the dump is the line \<open>SONAME      libm.so.6\<close> alone,
  no whitespace stands before \<open>SONAME\<close> for \<open>\s\<close> to match, and
  \<open>soname\<close> returns absent; and on a regular file whose name holds a quote,
  \<open>soname\<close> raises \<open>ValueError\<close> although \<open>objdump\<close> is not installed.\<close>

theorem soname_bare_line_unmatched:
  "isfile host_bare_dump libm_real
   \<and> popen host_bare_dump [''objdump'', ''-x'', ''-j'', ''.dynamic'', libm_real]
       = Stdout ''SONAME      libm.so.6''
   \<and> fst (soname host_bare_dump libm_real w0) = Inr None
   \<and> isfile host_no_objdump (''/tmp/lib'' @ [CHR 0x22] @ ''.so'')
   \<and> fst (soname host_no_objdump (''/tmp/lib'' @ [CHR 0x22] @ ''.so'') w0) = Inl ValueError"
  by code_simp

text \<open>Claim C7, amended. For a regular file whose \<open>objdump\<close> command line
  \<open>shlex.split\<close> accepts: \<open>soname\<close> returns absent when spawning raises an
  \<open>OSError\<close> and when \<open>SONAME\<close> does not occur in the dump; and when the dump
  holds \<open>SONAME\<close> after a whitespace character and before whitespace and a token that
  ends at whitespace or at the end of the dump, with no \<open>SONAME\<close> before,
  \<open>soname\<close> returns that token.\<close>

theorem soname_result:
  assumes "isfile h library_path"
    and "shsplit (objdump_command library_path) = Inr argv"
  shows "(popen h argv = Raises_OSError n \<longrightarrow> fst (soname h library_path w) = Inr None)
     \<and> (popen h argv = Stdout dump \<and> \<not> sublist ''SONAME'' dump \<longrightarrow>
          fst (soname h library_path w) = Inr None)
     \<and> (popen h argv = Stdout (pre @ c # ''SONAME'' @ ws @ token @ rest)
          \<and> is_space c \<and> \<not> sublist ''SONAME'' pre
          \<and> ws \<noteq> [] \<and> (\<forall>x\<in>set ws. is_space x)
          \<and> token \<noteq> [] \<and> (\<forall>x\<in>set token. \<not> is_space x)
          \<and> (rest = [] \<or> is_space (hd rest)) \<longrightarrow>
          fst (soname h library_path w) = Inr (Some token))"
proof -
  have cmd: "shsplit (''objdump -x -j .dynamic '' @ library_path) = Inr argv"
    using assms(2) by (simp add: objdump_command_def)
  have a: "fst (soname h library_path w) = Inr None" if "popen h argv = Raises_OSError n"
    using that assms(1) cmd by (simp add: soname_def execute_cases)
  have b: "fst (soname h library_path w) = Inr None"
    if "popen h argv = Stdout dump" and "\<not> sublist ''SONAME'' dump"
  proof -
    have "search soname_expr dump = None"
      unfolding search_def using that(2) by (rule soname_search_none)
    then show ?thesis
      using that(1) assms(1) cmd by (simp add: soname_def execute_cases)
  qed
  have c: "fst (soname h library_path w) = Inr (Some token)"
    if "popen h argv = Stdout (pre @ c # ''SONAME'' @ ws @ token @ rest)"
      and "is_space c" and "\<not> sublist ''SONAME'' pre"
      and "ws \<noteq> []" and "\<forall>x\<in>set ws. is_space x"
      and "token \<noteq> []" and "\<forall>x\<in>set token. \<not> is_space x"
      and "rest = [] \<or> is_space (hd rest)"
  proof -
    let ?dump = "pre @ c # ''SONAME'' @ ws @ token @ rest"
    have "search soname_expr ?dump = Some (length pre, [1, 6, length ws, length token])"
      unfolding search_def
      using soname_search_from [OF that(2) that(4-8) that(3), of 0] by simp
    moreover have "match_span (length pre, [1, 6, length ws, length token]) 3 4 ?dump = token"
      by (rule soname_group)
    ultimately show ?thesis
      using that(1) assms(1) cmd by (simp add: soname_def execute_cases del: append.simps)
  qed
  show ?thesis
    using a b c by blast
qed

theorem soname_result_witness:
  "isfile host_glibc libm_real
   \<and> popen host_glibc [''objdump'', ''-x'', ''-j'', ''.dynamic'', libm_real] = Stdout objdump_dump
   \<and> fst (soname host_glibc libm_real w0) = Inr (Some ''libm.so.6'')
   \<and> popen host_no_objdump [''objdump'', ''-x'', ''-j'', ''.dynamic'', libm_real]
       = Raises_OSError ENOENT
   \<and> fst (soname host_no_objdump libm_real w0) = Inr None
   \<and> popen host_bare_line [''objdump'', ''-x'', ''-j'', ''.dynamic'', libm_real] = Stdout libm_line
   \<and> \<not> sublist ''SONAME'' libm_line
   \<and> fst (soname host_bare_line libm_real w0) = Inr None"
proof -
  let ?argv = "[''objdump'', ''-x'', ''-j'', ''.dynamic'', libm_real]"
  let ?pre = "''Dynamic Section:'' @ [CHR 0x0A] @ ''  NEEDED               libc.so.6''
                @ [CHR 0x0A] @ '' ''"
  let ?ws = "''               ''"
  have 1: "isfile host_glibc libm_real" "isfile host_no_objdump libm_real"
    "isfile host_bare_line libm_real"
    by (simp_all add: host_glibc_def host_no_objdump_def host_bare_line_def)
  have 2: "shsplit (objdump_command libm_real) = Inr ?argv"
    by code_simp
  have 3: "popen host_glibc ?argv
             = Stdout (?pre @ CHR '' '' # ''SONAME'' @ ?ws @ ''libm.so.6'' @ [CHR 0x0A])"
    by (simp add: host_glibc_def objdump_dump_def libm_real_def)
  have 4: "is_space CHR '' ''" "is_space (hd [CHR 0x0A])"
    "\<forall>x\<in>set ?ws. is_space x" "\<forall>x\<in>set ''libm.so.6''. \<not> is_space x"
    by (simp_all add: is_space_def)
  have 5: "\<not> sublist ''SONAME'' ?pre" "\<not> sublist ''SONAME'' libm_line"
    by code_simp+
  have 6: "popen host_no_objdump ?argv = Raises_OSError ENOENT"
    "popen host_bare_line ?argv = Stdout libm_line"
    by (simp_all add: host_no_objdump_def host_bare_line_def)
  have a: "fst (soname host_glibc libm_real w0) = Inr (Some ''libm.so.6'')"
    using soname_result [OF 1(1) 2, of 0 w0 "[]" ?pre "CHR '' ''" ?ws "''libm.so.6''" "[CHR 0x0A]"]
      3 4 5(1)
    by simp
  have b: "fst (soname host_no_objdump libm_real w0) = Inr None"
    using soname_result [OF 1(2) 2, of ENOENT w0] 6(1) by blast
  have c: "fst (soname host_bare_line libm_real w0) = Inr None"
    using soname_result [OF 1(3) 2, of _ w0 libm_line] 6(2) 5(2) by blast
  show ?thesis
    using 1(1) 3 5(2) 6 a b c by (simp add: objdump_dump_def)
qed

subsection \<open>C8: the returned path is canonical\<close>

text \<open>Claim C8. On a host whose \<open>realpath\<close> returns absolute, normalised paths that it
  maps to themselves, a path that \<open>find_library\<close> returns is absolute, is its own
  \<open>realpath\<close> and is a fixed point of \<open>_final_path\<close>.\<close>

theorem find_library_canonical:
  assumes "\<forall>q. take 1 (realpath h q) = ''/'' \<and> normpath (realpath h q) = realpath h q
               \<and> realpath h (realpath h q) = realpath h q"
    and "fst (find_library h library w) = Inr (Some p)"
  shows "take 1 p = ''/'' \<and> realpath h p = p \<and> final_path h p = p"
proof -
  from assms(2) obtain q where "p = final_path h q"
    using find_library_result by blast
  then have "p = realpath h (normpath q)"
    by (simp add: final_path_def)
  with assms(1) show ?thesis
    by (simp add: final_path_def)
qed

theorem find_library_canonical_witness:
  "fst (find_library host_glibc ''m'' w0) = Inr (Some libm_real)
   \<and> take 1 libm_real = ''/'' \<and> realpath host_glibc libm_real = libm_real
   \<and> final_path host_glibc libm_real = libm_real"
proof -
  have "fst (find_library host_glibc ''m'' w0) = Inr (Some libm_real)"
    by code_simp
  with find_library_canonical [OF realpath_glibc_canonical this] show ?thesis
    by simp
qed

subsection \<open>C9: the temporary file is released\<close>

text \<open>Claim C9. The claim says that the temporary file's handle and path are released on every
  exit path. On a host where \<open>os.unlink\<close> raises \<open>PermissionError\<close> (\<open>errno\<close>
  13) when the \<open>with\<close> block is left, \<open>_gcc_search\<close> raises that error and the
  path of the temporary file is still on disk.\<close>

theorem gcc_search_tmp_path_left:
  "linker_of host_tmp_stuck = Some ''/usr/bin/cc''
   \<and> tmp_paths w0 = []
   \<and> fst (gcc_search host_tmp_stuck ''m'' w0) = Inl (OSError 13)
   \<and> open_tmp (snd (gcc_search host_tmp_stuck ''m'' w0)) = []
   \<and> tmp_paths (snd (gcc_search host_tmp_stuck ''m'' w0)) = [''/tmp/tmpq3f8z1'']"
  by code_simp

text \<open>Claim C9, amended. After \<open>_gcc_search\<close>, whatever it returned or raised, the
  temporary files whose handle is open are those that were open before: when a linker is found
  and the temporary file is made, the file is opened once and closed once; otherwise none is
  opened and no path is made. The path of the temporary file is gone after the call when its
  removal succeeds or raises \<open>ENOENT\<close>; when the removal raises an \<open>OSError\<close> with
  another \<open>errno\<close>, \<open>_gcc_search\<close> raises that error and the path stays.\<close>

theorem gcc_search_tmp_scope:
  "open_tmp (snd (gcc_search h library w)) = open_tmp w
   \<and> (linker_of h = Some l \<and> mktemp h = Inr name \<longrightarrow>
        filter is_tmp_event (since w (snd (gcc_search h library w)))
          = [TmpOpen name, TmpClose name])
   \<and> (linker_of h = None \<or> (\<exists>n. mktemp h = Inl n) \<longrightarrow>
        filter is_tmp_event (since w (snd (gcc_search h library w))) = []
        \<and> tmp_paths (snd (gcc_search h library w)) = tmp_paths w)
   \<and> (linker_of h = Some l \<and> mktemp h = Inr name
        \<and> (tmp_exit h name = None \<or> tmp_exit h name = Some ENOENT) \<longrightarrow>
        tmp_paths (snd (gcc_search h library w)) = tmp_paths w)
   \<and> (linker_of h = Some l \<and> mktemp h = Inr name
        \<and> tmp_exit h name = Some n \<and> n \<noteq> ENOENT \<longrightarrow>
        fst (gcc_search h library w) = Inl (OSError n)
        \<and> tmp_paths (snd (gcc_search h library w)) = name # tmp_paths w)"
proof -
  have "\<exists>evs. events (snd (gcc_search h library w)) = events w @ evs
          \<and> filter is_tmp_event evs =
              (case linker_of h of
                 None \<Rightarrow> []
               | Some l \<Rightarrow> (case mktemp h of Inl n \<Rightarrow> [] | Inr name \<Rightarrow> [TmpOpen name, TmpClose name]))"
    by (auto simp: gcc_search_world Let_def events_emit gcc_trace_events
             split: option.splits sum.splits)
  then obtain evs where "since w (snd (gcc_search h library w)) = evs"
    and "filter is_tmp_event evs =
              (case linker_of h of
                 None \<Rightarrow> []
               | Some l \<Rightarrow> (case mktemp h of Inl n \<Rightarrow> [] | Inr name \<Rightarrow> [TmpOpen name, TmpClose name]))"
    by (auto simp: since_def)
  then have ev: "filter is_tmp_event (since w (snd (gcc_search h library w))) =
              (case linker_of h of
                 None \<Rightarrow> []
               | Some l \<Rightarrow> (case mktemp h of Inl n \<Rightarrow> [] | Inr name \<Rightarrow> [TmpOpen name, TmpClose name]))"
    by simp
  have raised: "fst (gcc_search h library w) = Inl (OSError n)"
    if "linker_of h = Some l" and "mktemp h = Inr name"
      and "tmp_exit h name = Some n" and "n \<noteq> ENOENT"
    using that(1) gcc_trace_unlink_error [OF that(2-4)] by (simp add: gcc_search_fst)
  have paths: "tmp_paths (snd (gcc_search h library w)) =
     (case linker_of h of
        None \<Rightarrow> tmp_paths w
      | Some l \<Rightarrow>
          (case mktemp h of
             Inl n \<Rightarrow> tmp_paths w
           | Inr name \<Rightarrow>
               if tmp_exit h name = None \<or> tmp_exit h name = Some ENOENT then tmp_paths w
               else name # tmp_paths w))"
    by (rule gcc_search_tmp_paths)
  have "open_tmp (snd (gcc_search h library w)) = open_tmp w"
    by (rule gcc_search_open_tmp)
  moreover have "filter is_tmp_event (since w (snd (gcc_search h library w)))
          = [TmpOpen name, TmpClose name]"
    if "linker_of h = Some l" and "mktemp h = Inr name"
    using that ev by simp
  moreover have "filter is_tmp_event (since w (snd (gcc_search h library w))) = []
        \<and> tmp_paths (snd (gcc_search h library w)) = tmp_paths w"
    if "linker_of h = None \<or> (\<exists>n. mktemp h = Inl n)"
    using that ev paths by (auto split: option.splits)
  moreover have "tmp_paths (snd (gcc_search h library w)) = tmp_paths w"
    if "linker_of h = Some l" and "mktemp h = Inr name"
      and "tmp_exit h name = None \<or> tmp_exit h name = Some ENOENT"
    using that paths by auto
  moreover have "tmp_paths (snd (gcc_search h library w)) = name # tmp_paths w"
    if "linker_of h = Some l" and "mktemp h = Inr name"
      and "tmp_exit h name = Some n" and "n \<noteq> ENOENT"
    using that paths by simp
  ultimately show ?thesis
    using raised by blast
qed

theorem gcc_search_tmp_scope_witness:
  "linker_of host_cc = Some ''/usr/bin/cc'' \<and> mktemp host_cc = Inr ''/tmp/tmpq3f8z1''
   \<and> tmp_exit host_cc ''/tmp/tmpq3f8z1'' = None
   \<and> fst (gcc_search host_cc (''a'' @ [CHR 0x22] @ ''b'') w0) = Inl ValueError
   \<and> open_tmp (snd (gcc_search host_cc (''a'' @ [CHR 0x22] @ ''b'') w0)) = open_tmp w0
   \<and> tmp_paths (snd (gcc_search host_cc (''a'' @ [CHR 0x22] @ ''b'') w0)) = tmp_paths w0
   \<and> filter is_tmp_event (since w0 (snd (gcc_search host_cc (''a'' @ [CHR 0x22] @ ''b'') w0)))
       = [TmpOpen ''/tmp/tmpq3f8z1'', TmpClose ''/tmp/tmpq3f8z1'']
   \<and> fst (gcc_search host_cc ''m'' w0) = Inr (Some libm_real)
   \<and> tmp_paths (snd (gcc_search host_cc ''m'' w0)) = tmp_paths w0
   \<and> filter is_tmp_event (since w0 (snd (gcc_search host_cc ''m'' w0)))
       = [TmpOpen ''/tmp/tmpq3f8z1'', TmpClose ''/tmp/tmpq3f8z1'']
   \<and> fst (gcc_search host_cc ''z'' w0) = Inr None
   \<and> tmp_paths (snd (gcc_search host_cc ''z'' w0)) = tmp_paths w0
   \<and> linker_of host_glibc = Some ''/usr/bin/cc'' \<and> mktemp host_glibc = Inr ''/tmp/tmpq3f8z1''
   \<and> tmp_exit host_glibc ''/tmp/tmpq3f8z1'' = Some ENOENT
   \<and> tmp_paths (snd (gcc_search host_glibc ''m'' w0)) = tmp_paths w0
   \<and> linker_of host_tmp_stuck = Some ''/usr/bin/cc''
   \<and> mktemp host_tmp_stuck = Inr ''/tmp/tmpq3f8z1''
   \<and> tmp_exit host_tmp_stuck ''/tmp/tmpq3f8z1'' = Some 13 \<and> 13 \<noteq> ENOENT
   \<and> fst (gcc_search host_tmp_stuck ''m'' w0) = Inl (OSError 13)
   \<and> tmp_paths (snd (gcc_search host_tmp_stuck ''m'' w0)) = ''/tmp/tmpq3f8z1'' # tmp_paths w0
   \<and> linker_of host_empty = None
   \<and> filter is_tmp_event (since w0 (snd (gcc_search host_empty ''m'' w0))) = []
   \<and> tmp_paths (snd (gcc_search host_empty ''m'' w0)) = tmp_paths w0
   \<and> mktemp host_notmp = Inl ENOENT
   \<and> filter is_tmp_event (since w0 (snd (gcc_search host_notmp ''m'' w0))) = []
   \<and> tmp_paths (snd (gcc_search host_notmp ''m'' w0)) = tmp_paths w0"
proof -
  have 1: "linker_of host_cc = Some ''/usr/bin/cc''" "linker_of host_empty = None"
    "linker_of host_glibc = Some ''/usr/bin/cc''" "linker_of host_tmp_stuck = Some ''/usr/bin/cc''"
    by code_simp+
  have 2: "mktemp host_cc = Inr ''/tmp/tmpq3f8z1''" "mktemp host_glibc = Inr ''/tmp/tmpq3f8z1''"
    "mktemp host_tmp_stuck = Inr ''/tmp/tmpq3f8z1''" "mktemp host_notmp = Inl ENOENT"
    "tmp_exit host_cc ''/tmp/tmpq3f8z1'' = None"
    "tmp_exit host_glibc ''/tmp/tmpq3f8z1'' = Some ENOENT"
    "tmp_exit host_tmp_stuck ''/tmp/tmpq3f8z1'' = Some 13"
    by (simp_all add: host_cc_def host_glibc_def host_tmp_stuck_def host_notmp_def)
  have 3: "fst (gcc_search host_cc (''a'' @ [CHR 0x22] @ ''b'') w0) = Inl ValueError"
    "fst (gcc_search host_cc ''m'' w0) = Inr (Some libm_real)"
    "fst (gcc_search host_cc ''z'' w0) = Inr None"
    by code_simp+
  have 4: "13 \<noteq> ENOENT"
    by (simp add: ENOENT_def)
  from gcc_search_tmp_scope [where h = host_cc and library = "''a'' @ [CHR 0x22] @ ''b''"
      and w = w0 and l = "''/usr/bin/cc''" and name = "''/tmp/tmpq3f8z1''"] 1 2
  have a: "open_tmp (snd (gcc_search host_cc (''a'' @ [CHR 0x22] @ ''b'') w0)) = open_tmp w0"
    "tmp_paths (snd (gcc_search host_cc (''a'' @ [CHR 0x22] @ ''b'') w0)) = tmp_paths w0"
    "filter is_tmp_event (since w0 (snd (gcc_search host_cc (''a'' @ [CHR 0x22] @ ''b'') w0)))
       = [TmpOpen ''/tmp/tmpq3f8z1'', TmpClose ''/tmp/tmpq3f8z1'']"
    by simp_all
  from gcc_search_tmp_scope [where h = host_cc and library = "''m''"
      and w = w0 and l = "''/usr/bin/cc''" and name = "''/tmp/tmpq3f8z1''"] 1 2
  have b: "tmp_paths (snd (gcc_search host_cc ''m'' w0)) = tmp_paths w0"
    "filter is_tmp_event (since w0 (snd (gcc_search host_cc ''m'' w0)))
       = [TmpOpen ''/tmp/tmpq3f8z1'', TmpClose ''/tmp/tmpq3f8z1'']"
    by simp_all
  from gcc_search_tmp_scope [where h = host_cc and library = "''z''"
      and w = w0 and l = "''/usr/bin/cc''" and name = "''/tmp/tmpq3f8z1''"] 1 2
  have c: "tmp_paths (snd (gcc_search host_cc ''z'' w0)) = tmp_paths w0"
    by simp
  from gcc_search_tmp_scope [where h = host_glibc and library = "''m''"
      and w = w0 and l = "''/usr/bin/cc''" and name = "''/tmp/tmpq3f8z1''"] 1 2
  have d: "tmp_paths (snd (gcc_search host_glibc ''m'' w0)) = tmp_paths w0"
    by simp
  from gcc_search_tmp_scope [where h = host_tmp_stuck and library = "''m''"
      and w = w0 and l = "''/usr/bin/cc''" and name = "''/tmp/tmpq3f8z1''" and n = 13] 1 2 4
  have e: "fst (gcc_search host_tmp_stuck ''m'' w0) = Inl (OSError 13)"
    "tmp_paths (snd (gcc_search host_tmp_stuck ''m'' w0)) = ''/tmp/tmpq3f8z1'' # tmp_paths w0"
    by simp_all
  from gcc_search_tmp_scope [where h = host_empty and library = "''m''" and w = w0] 1
  have f: "filter is_tmp_event (since w0 (snd (gcc_search host_empty ''m'' w0))) = []"
    "tmp_paths (snd (gcc_search host_empty ''m'' w0)) = tmp_paths w0"
    by simp_all
  from gcc_search_tmp_scope [where h = host_notmp and library = "''m''" and w = w0] 2
  have g: "filter is_tmp_event (since w0 (snd (gcc_search host_notmp ''m'' w0))) = []"
    "tmp_paths (snd (gcc_search host_notmp ''m'' w0)) = tmp_paths w0"
    by simp_all
  from a b c d e f g 1 2 3 4 show ?thesis
    by simp
qed

subsection \<open>C10: the unbound variable\<close>

text \<open>Claim C10. With a linker found, when \<open>NamedTemporaryFile()\<close> raises an
  \<open>OSError\<close> with \<open>errno\<close> \<open>ENOENT\<close>, or when the command cannot be split
  and closing the file raises one, the handler swallows the exception, \<open>trace\<close> is
  unbound and \<open>_gcc_search\<close> raises \<open>NameError\<close>.\<close>

theorem gcc_search_name_error:
  "(linker_of h = Some l \<and> mktemp h = Inl ENOENT \<longrightarrow>
      fst (gcc_search h library w) = Inl NameError)
   \<and> (linker_of h = Some l \<and> mktemp h = Inr name
        \<and> shsplit (gcc_command l name library) = Inl ValueError
        \<and> tmp_exit h name = Some ENOENT \<longrightarrow>
      fst (gcc_search h library w) = Inl NameError)"
  by (auto simp add: gcc_search_def linker_of_def gcc_trace_def execute_cases Let_def
           split: if_splits)

theorem gcc_search_name_error_witness:
  "linker_of host_notmp = Some ''/usr/bin/cc'' \<and> mktemp host_notmp = Inl ENOENT
   \<and> fst (gcc_search host_notmp ''m'' w0) = Inl NameError
   \<and> linker_of host_glibc = Some ''/usr/bin/cc'' \<and> mktemp host_glibc = Inr ''/tmp/tmpq3f8z1''
   \<and> shsplit (gcc_command ''/usr/bin/cc'' ''/tmp/tmpq3f8z1'' (''a'' @ [CHR 0x22] @ ''b''))
       = Inl ValueError
   \<and> tmp_exit host_glibc ''/tmp/tmpq3f8z1'' = Some ENOENT
   \<and> fst (gcc_search host_glibc (''a'' @ [CHR 0x22] @ ''b'') w0) = Inl NameError"
proof -
  have 1: "linker_of host_notmp = Some ''/usr/bin/cc''" "linker_of host_glibc = Some ''/usr/bin/cc''"
    by code_simp+
  have 2: "mktemp host_notmp = Inl ENOENT" "mktemp host_glibc = Inr ''/tmp/tmpq3f8z1''"
    "tmp_exit host_glibc ''/tmp/tmpq3f8z1'' = Some ENOENT"
    by (simp_all add: host_notmp_def host_glibc_def)
  have 3: "shsplit (gcc_command ''/usr/bin/cc'' ''/tmp/tmpq3f8z1'' (''a'' @ [CHR 0x22] @ ''b''))
             = Inl ValueError"
    by code_simp
  from gcc_search_name_error [of host_notmp "''/usr/bin/cc''" "''m''" w0]
    gcc_search_name_error [of host_glibc "''/usr/bin/cc''" "''a'' @ [CHR 0x22] @ ''b''" w0
      "''/tmp/tmpq3f8z1''"] 1 2 3
  show ?thesis by blast
qed

end
